theory Spec2Isabelle
  imports Complex_Main "HOL-Library.Word"
begin

section \<open>The finite state machine of include/fsm.hpp\<close>

text \<open>
  The class template \<^verbatim>\<open>StateMachine<T, Args...>\<close> is embedded with three type
  parameters: \<open>'n\<close> for the state identifier \<^verbatim>\<open>T\<close>, \<open>'a\<close> for the argument pack
  \<^verbatim>\<open>Args...\<close> (a tuple), and \<open>'c\<close> for the identity of a callback
  (a non-empty \<^verbatim>\<open>std::function<void(uint32_t)>\<close>).

  State objects are created by \<^verbatim>\<open>std::make_shared\<close> and are shared between the registry,
  the transitions, the caches and the current pointer, and their cache is mutated through
  any of these pointers. They live in an explicit store (\<open>heap\<close>), and a
  \<^verbatim>\<open>std::shared_ptr<State>\<close> is an address into it; comparison of two shared pointers is
  comparison of addresses. Transition objects are never mutated after construction and are
  held by value.

  A guard is a total function of the entity id and the arguments. What the outside world
  can see of a call (which guards were evaluated, in which order and with which result,
  and which callbacks fired, with which id, while which state was current) is returned as a
  list of events.
\<close>

subsection \<open>Data\<close>

type_synonym state_ptr = nat

record 'a Transition =
  to :: state_ptr
  condition :: "32 word \<Rightarrow> 'a \<Rightarrow> bool"

record TransitionCache =
  target :: state_ptr
  transition_idx :: nat

record ('n, 'a, 'c) State =
  name :: 'n
  entity_id :: "32 word"
  transitions :: "'a Transition list"
  on_enter :: "'c option"
  on_exit :: "'c option"
  cache :: "TransitionCache option"

record ('n, 'a, 'c) StateMachine =
  heap :: "('n, 'a, 'c) State list"
  states :: "'n \<rightharpoonup> state_ptr"
  current_state :: "state_ptr option"

text \<open>
  \<open>GuardCall n i id args b\<close>: the guard of transition \<open>i\<close> of the state named \<open>n\<close> was
  called with \<open>(id, args)\<close> and returned \<open>b\<close>.
  \<open>CallbackCall f id cur\<close>: the callback \<open>f\<close> was called with \<open>id\<close> while the machine's
  \<^verbatim>\<open>current_state\<close> pointer was \<open>cur\<close>.
\<close>

datatype ('n, 'a, 'c) event =
    GuardCall 'n nat "32 word" 'a bool
  | CallbackCall 'c "32 word" "state_ptr option"

text \<open>
  \<open>AssertionFailed\<close>: an \<^verbatim>\<open>assert\<close> of the source does not hold.
  \<open>InvalidAccess\<close>: \<^verbatim>\<open>operator[]\<close> of the transition vector out of range, an empty
  optional or a null pointer dereferenced (undefined behaviour in the source), or an
  address outside the store.
\<close>

datatype fsm_error = AssertionFailed | InvalidAccess

subsection \<open>Transition and TransitionCache\<close>

definition get_target :: "'a Transition \<Rightarrow> state_ptr" where
  "get_target t = to t"

definition check_condition :: "'a Transition \<Rightarrow> 32 word \<Rightarrow> 'a \<Rightarrow> bool" where
  "check_condition t eid args = condition t eid args"

definition try_transition ::
  "TransitionCache \<Rightarrow> ('n, 'a, 'c) State \<Rightarrow> 32 word \<Rightarrow> 'a \<Rightarrow> fsm_error + bool" where
  "try_transition c s eid args =
     (if transition_idx c < length (transitions s)
      then Inr (check_condition (transitions s ! transition_idx c) eid args)
      else Inl InvalidAccess)"

subsection \<open>State\<close>

definition new_State :: "'n \<Rightarrow> 32 word \<Rightarrow> ('n, 'a, 'c) State" where
  "new_State n eid =
     \<lparr>name = n, entity_id = eid, transitions = [], on_enter = None, on_exit = None,
      cache = None\<rparr>"

definition State_add_transition ::
  "('n, 'a, 'c) State \<Rightarrow> 'a Transition \<Rightarrow> ('n, 'a, 'c) State" where
  "State_add_transition s t = s\<lparr>transitions := transitions s @ [t]\<rparr>"

text \<open>
  \<^verbatim>\<open>try_cached_transition\<close> returns the flag, the state with its cache slot as the call
  leaves it, and the guard call it made (none when the cache is empty).
\<close>

definition try_cached_transition ::
  "('n, 'a, 'c) State \<Rightarrow> 32 word \<Rightarrow> 'a \<Rightarrow>
     fsm_error + (bool \<times> ('n, 'a, 'c) State \<times> ('n, 'a, 'c) event list)" where
  "try_cached_transition s eid args =
     (case cache s of
        None \<Rightarrow> Inr (False, s\<lparr>cache := None\<rparr>, [])
      | Some c \<Rightarrow>
          (case try_transition c s eid args of
             Inl e \<Rightarrow> Inl e
           | Inr b \<Rightarrow>
               (if b then Inr (True, s, [GuardCall (name s) (transition_idx c) eid args True])
                else Inr (False, s\<lparr>cache := None\<rparr>,
                          [GuardCall (name s) (transition_idx c) eid args False]))))"

definition update_cache :: "('n, 'a, 'c) State \<Rightarrow> nat \<Rightarrow> state_ptr \<Rightarrow> ('n, 'a, 'c) State" where
  "update_cache s idx tgt = s\<lparr>cache := Some \<lparr>target = tgt, transition_idx = idx\<rparr>\<rparr>"

definition set_callbacks ::
  "('n, 'a, 'c) State \<Rightarrow> 'c option \<Rightarrow> 'c option \<Rightarrow> ('n, 'a, 'c) State" where
  "set_callbacks s enter exit =
     (let s1 = (if enter \<noteq> None then s\<lparr>on_enter := enter\<rparr> else s)
      in (if exit \<noteq> None then s1\<lparr>on_exit := exit\<rparr> else s1))"

text \<open>
  \<^verbatim>\<open>enter\<close> and \<^verbatim>\<open>exit\<close> take, besides the state, the value of the machine's
  current pointer at the moment of the call, which goes into the event.
\<close>

definition enter :: "('n, 'a, 'c) State \<Rightarrow> state_ptr option \<Rightarrow> ('n, 'a, 'c) event list" where
  "enter s cur =
     (case on_enter s of None \<Rightarrow> [] | Some f \<Rightarrow> [CallbackCall f (entity_id s) cur])"

definition exit :: "('n, 'a, 'c) State \<Rightarrow> state_ptr option \<Rightarrow> ('n, 'a, 'c) event list" where
  "exit s cur =
     (case on_exit s of None \<Rightarrow> [] | Some f \<Rightarrow> [CallbackCall f (entity_id s) cur])"

subsection \<open>StateMachine\<close>

definition StateMachine_init :: "('n, 'a, 'c) StateMachine" where
  "StateMachine_init = \<lparr>heap = [], states = Map.empty, current_state = None\<rparr>"

definition deref ::
  "('n, 'a, 'c) StateMachine \<Rightarrow> state_ptr \<Rightarrow> fsm_error + ('n, 'a, 'c) State" where
  "deref m p = (if p < length (heap m) then Inr (heap m ! p) else Inl InvalidAccess)"

definition store ::
  "('n, 'a, 'c) StateMachine \<Rightarrow> state_ptr \<Rightarrow> ('n, 'a, 'c) State \<Rightarrow> ('n, 'a, 'c) StateMachine" where
  "store m p s = m\<lparr>heap := (heap m)[p := s]\<rparr>"

definition handle_transition ::
  "('n, 'a, 'c) StateMachine \<Rightarrow> state_ptr \<Rightarrow>
     fsm_error + (('n, 'a, 'c) StateMachine \<times> ('n, 'a, 'c) event list)" where
  "handle_transition m new_state =
     (case current_state m of
        None \<Rightarrow> Inl InvalidAccess
      | Some p \<Rightarrow>
          (case deref m p of
             Inl e \<Rightarrow> Inl e
           | Inr old \<Rightarrow>
               (let ev1 = exit old (current_state m);
                    m1 = m\<lparr>current_state := Some new_state\<rparr>
                in (case deref m1 new_state of
                      Inl e \<Rightarrow> Inl e
                    | Inr new \<Rightarrow> Inr (m1, ev1 @ enter new (current_state m1))))))"

definition add_state ::
  "('n, 'a, 'c) StateMachine \<Rightarrow> 'n \<Rightarrow> 32 word \<Rightarrow> state_ptr \<times> ('n, 'a, 'c) StateMachine" where
  "add_state m n eid =
     (case states m n of
        Some p \<Rightarrow> (p, m)
      | None \<Rightarrow>
          (let p = length (heap m)
           in (p, \<lparr>heap = heap m @ [new_State n eid],
                   states = (states m)(n \<mapsto> p),
                   current_state =
                     (if current_state m = None then Some p else current_state m)\<rparr>)))"

definition add_transition ::
  "('n, 'a, 'c) StateMachine \<Rightarrow> 'n \<Rightarrow> 'n \<Rightarrow> (32 word \<Rightarrow> 'a \<Rightarrow> bool) \<Rightarrow>
     fsm_error + ('n, 'a, 'c) StateMachine" where
  "add_transition m from_state to_state cond =
     (case states m from_state of
        None \<Rightarrow> Inl AssertionFailed
      | Some pf \<Rightarrow>
          (case states m to_state of
             None \<Rightarrow> Inl AssertionFailed
           | Some pt \<Rightarrow>
               (case deref m pf of
                  Inl e \<Rightarrow> Inl e
                | Inr s \<Rightarrow>
                    Inr (store m pf (State_add_transition s \<lparr>to = pt, condition = cond\<rparr>)))))"

definition set_callback ::
  "('n, 'a, 'c) StateMachine \<Rightarrow> 'n \<Rightarrow> 'c option \<Rightarrow> 'c option \<Rightarrow>
     fsm_error + ('n, 'a, 'c) StateMachine" where
  "set_callback m n enter_cb exit_cb =
     (case states m n of
        None \<Rightarrow> Inl AssertionFailed
      | Some p \<Rightarrow>
          (case deref m p of
             Inl e \<Rightarrow> Inl e
           | Inr s \<Rightarrow> Inr (store m p (set_callbacks s enter_cb exit_cb))))"

definition start ::
  "('n, 'a, 'c) StateMachine \<Rightarrow>
     fsm_error + (('n, 'a, 'c) StateMachine \<times> ('n, 'a, 'c) event list)" where
  "start m =
     (case current_state m of
        None \<Rightarrow> Inl AssertionFailed
      | Some p \<Rightarrow>
          (case deref m p of
             Inl e \<Rightarrow> Inl e
           | Inr s \<Rightarrow> Inr (m, enter s (current_state m))))"

text \<open>
  The \<^verbatim>\<open>for\<close> loop of \<^verbatim>\<open>update\<close>, from index \<open>i\<close> on. \<open>p\<close> is the current pointer and
  \<open>cur\<close> the state it points to; neither changes before the loop breaks.
\<close>

function update_loop ::
  "('n, 'a, 'c) StateMachine \<Rightarrow> state_ptr \<Rightarrow> ('n, 'a, 'c) State \<Rightarrow> 'a \<Rightarrow> nat \<Rightarrow>
     fsm_error + (('n, 'a, 'c) StateMachine \<times> ('n, 'a, 'c) event list)" where
  "update_loop m p cur args i =
     (if i < length (transitions cur) then
        (if check_condition (transitions cur ! i) (entity_id cur) args then
           (case handle_transition
                   (store m p (update_cache cur i (get_target (transitions cur ! i))))
                   (get_target (transitions cur ! i)) of
              Inl e \<Rightarrow> Inl e
            | Inr (m2, evs) \<Rightarrow>
                Inr (m2, GuardCall (name cur) i (entity_id cur) args True # evs))
         else
           (case update_loop m p cur args (Suc i) of
              Inl e \<Rightarrow> Inl e
            | Inr (m2, evs) \<Rightarrow>
                Inr (m2, GuardCall (name cur) i (entity_id cur) args False # evs)))
      else Inr (m, []))"
  by pat_completeness auto
termination
  by (relation "measure (\<lambda>(m, p, cur, args, i). length (transitions cur) - i)") auto

declare update_loop.simps [simp del]

definition update ::
  "('n, 'a, 'c) StateMachine \<Rightarrow> 'a \<Rightarrow>
     fsm_error + (('n, 'a, 'c) StateMachine \<times> ('n, 'a, 'c) event list)" where
  "update m args =
     (case current_state m of
        None \<Rightarrow> Inl AssertionFailed
      | Some p \<Rightarrow>
          (case deref m p of
             Inl e \<Rightarrow> Inl e
           | Inr cur \<Rightarrow>
               (case try_cached_transition cur (entity_id cur) args of
                  Inl e \<Rightarrow> Inl e
                | Inr (hit, cur1, ev) \<Rightarrow>
                    (if hit then
                       (case cache cur1 of
                          None \<Rightarrow> Inl InvalidAccess
                        | Some c \<Rightarrow>
                            (case handle_transition (store m p cur1) (target c) of
                               Inl e \<Rightarrow> Inl e
                             | Inr (m2, evs) \<Rightarrow> Inr (m2, ev @ evs)))
                     else
                       (case update_loop (store m p cur1) p cur1 args 0 of
                          Inl e \<Rightarrow> Inl e
                        | Inr (m2, evs) \<Rightarrow> Inr (m2, ev @ evs))))))"

definition get_current_state :: "('n, 'a, 'c) StateMachine \<Rightarrow> fsm_error + 'n" where
  "get_current_state m =
     (case current_state m of
        None \<Rightarrow> Inl AssertionFailed
      | Some p \<Rightarrow> (case deref m p of Inl e \<Rightarrow> Inl e | Inr s \<Rightarrow> Inr (name s)))"

text \<open>
  The \<^verbatim>\<open>for\<close> loop of \<^verbatim>\<open>can_transition_to\<close>, from index \<open>i\<close> on. The guard of a
  transition whose target is not \<open>tgt\<close> is not called (\<^verbatim>\<open>&&\<close> short-circuits).
\<close>

function can_transition_to_loop ::
  "('n, 'a, 'c) StateMachine \<Rightarrow> state_ptr \<Rightarrow> ('n, 'a, 'c) State \<Rightarrow> state_ptr \<Rightarrow> 'a \<Rightarrow> nat \<Rightarrow>
     bool \<times> ('n, 'a, 'c) StateMachine \<times> ('n, 'a, 'c) event list" where
  "can_transition_to_loop m p cur tgt args i =
     (if i < length (transitions cur) then
        (if get_target (transitions cur ! i) = tgt then
           (if check_condition (transitions cur ! i) (entity_id cur) args then
              (True, store m p (update_cache cur i tgt),
               [GuardCall (name cur) i (entity_id cur) args True])
            else
              (case can_transition_to_loop m p cur tgt args (Suc i) of
                 (b, m2, evs) \<Rightarrow>
                   (b, m2, GuardCall (name cur) i (entity_id cur) args False # evs)))
         else can_transition_to_loop m p cur tgt args (Suc i))
      else (False, m, []))"
  by pat_completeness auto
termination
  by (relation "measure (\<lambda>(m, p, cur, tgt, args, i). length (transitions cur) - i)") auto

declare can_transition_to_loop.simps [simp del]

definition can_transition_to ::
  "('n, 'a, 'c) StateMachine \<Rightarrow> 'n \<Rightarrow> 'a \<Rightarrow>
     fsm_error + (bool \<times> ('n, 'a, 'c) StateMachine \<times> ('n, 'a, 'c) event list)" where
  "can_transition_to m n args =
     (case current_state m of
        None \<Rightarrow> Inl AssertionFailed
      | Some p \<Rightarrow>
          (case states m n of
             None \<Rightarrow> Inl AssertionFailed
           | Some tgt \<Rightarrow>
               (case deref m p of
                  Inl e \<Rightarrow> Inl e
                | Inr cur \<Rightarrow>
                    (case try_cached_transition cur (entity_id cur) args of
                       Inl e \<Rightarrow> Inl e
                     | Inr (hit, cur1, ev) \<Rightarrow>
                         (if hit then
                            (case cache cur1 of
                               None \<Rightarrow> Inl InvalidAccess
                             | Some c \<Rightarrow> Inr (target c = tgt, store m p cur1, ev))
                          else
                            (case can_transition_to_loop (store m p cur1) p cur1 tgt args 0 of
                               (b, m2, evs) \<Rightarrow> Inr (b, m2, ev @ evs)))))))"

definition has_state :: "('n, 'a, 'c) StateMachine \<Rightarrow> 'n \<Rightarrow> bool" where
  "has_state m n = (states m n \<noteq> None)"

subsection \<open>What a call lets the outside see\<close>

fun is_guard_call :: "('n, 'a, 'c) event \<Rightarrow> bool" where
  "is_guard_call (GuardCall n i eid args b) = True"
| "is_guard_call (CallbackCall f eid cur) = False"

fun guard_true :: "('n, 'a, 'c) event \<Rightarrow> bool" where
  "guard_true (GuardCall n i eid args b) = b"
| "guard_true (CallbackCall f eid cur) = False"

definition guard_calls :: "('n, 'a, 'c) event list \<Rightarrow> ('n, 'a, 'c) event list" where
  "guard_calls evs = filter is_guard_call evs"

definition callback_calls :: "('n, 'a, 'c) event list \<Rightarrow> ('n, 'a, 'c) event list" where
  "callback_calls evs = filter (\<lambda>e. \<not> is_guard_call e) evs"

subsection \<open>Callers\<close>

text \<open>
  A caller drives the machine through its public member functions, one call after the
  other; a machine is reachable when such a sequence of calls, none of which fails,
  leads to it from the default-constructed machine.
\<close>

datatype ('n, 'a, 'c) call =
    AddState 'n "32 word"
  | AddTransition 'n 'n "32 word \<Rightarrow> 'a \<Rightarrow> bool"
  | SetCallback 'n "'c option" "'c option"
  | Start
  | Update 'a
  | CanTransitionTo 'n 'a

fun do_call ::
  "('n, 'a, 'c) StateMachine \<Rightarrow> ('n, 'a, 'c) call \<Rightarrow>
     fsm_error + (('n, 'a, 'c) StateMachine \<times> ('n, 'a, 'c) event list)" where
  "do_call m (AddState n eid) = Inr (snd (add_state m n eid), [])"
| "do_call m (AddTransition n1 n2 cond) =
     (case add_transition m n1 n2 cond of Inl e \<Rightarrow> Inl e | Inr m1 \<Rightarrow> Inr (m1, []))"
| "do_call m (SetCallback n f g) =
     (case set_callback m n f g of Inl e \<Rightarrow> Inl e | Inr m1 \<Rightarrow> Inr (m1, []))"
| "do_call m Start = start m"
| "do_call m (Update args) = update m args"
| "do_call m (CanTransitionTo n args) =
     (case can_transition_to m n args of Inl e \<Rightarrow> Inl e | Inr (b, m1, evs) \<Rightarrow> Inr (m1, evs))"

fun run ::
  "('n, 'a, 'c) StateMachine \<Rightarrow> ('n, 'a, 'c) call list \<Rightarrow>
     fsm_error + (('n, 'a, 'c) StateMachine \<times> ('n, 'a, 'c) event list)" where
  "run m [] = Inr (m, [])"
| "run m (c # cs) =
     (case do_call m c of
        Inl e \<Rightarrow> Inl e
      | Inr (m1, ev1) \<Rightarrow>
          (case run m1 cs of Inl e \<Rightarrow> Inl e | Inr (m2, ev2) \<Rightarrow> Inr (m2, ev1 @ ev2)))"

inductive reachable :: "('n, 'a, 'c) StateMachine \<Rightarrow> bool" where
  reachable_init: "reachable StateMachine_init"
| reachable_call: "reachable m \<Longrightarrow> do_call m c = Inr (m1, evs) \<Longrightarrow> reachable m1"

subsection \<open>Well-formed machines\<close>

text \<open>
  The cache of a state is consistent when, if present, its index is in range of the
  state's transitions and the transition there has the cached target.
\<close>

definition cache_ok :: "('n, 'a, 'c) State \<Rightarrow> bool" where
  "cache_ok s =
     (case cache s of
        None \<Rightarrow> True
      | Some c \<Rightarrow>
          transition_idx c < length (transitions s) \<and>
          get_target (transitions s ! transition_idx c) = target c)"

text \<open>
  In a well-formed machine every pointer (of the registry, of a transition, the current
  one) is an address of the store, the registry maps a name to a state of that name, and
  every cache is consistent.
\<close>

definition wf :: "('n, 'a, 'c) StateMachine \<Rightarrow> bool" where
  "wf m \<longleftrightarrow>
     (\<forall>n p. states m n = Some p \<longrightarrow> p < length (heap m) \<and> name (heap m ! p) = n) \<and>
     (\<forall>p. current_state m = Some p \<longrightarrow> p < length (heap m)) \<and>
     (\<forall>s \<in> set (heap m). cache_ok s \<and> (\<forall>t \<in> set (transitions s). get_target t < length (heap m)))"

subsection \<open>The algorithm as the specification words it\<close>

text \<open>
  Section 4.3 of the specification words the algorithm of \<open>update\<close> as a cache probe
  followed by a scan in insertion order, and Section 4.4 says that the query uses the same
  algorithm. The two functions below follow those words, not the source; the list of
  transition indices the scan goes through is a parameter. They return the guard calls
  made and the cache slot left behind.

  \<open>spec_scan\<close>: evaluate each guard in turn; on the first one returning true record
  (index, target) and stop; if none matches the cache is empty.
  \<open>spec_probe_then_scan\<close>: if the state holds a cached (index, target), evaluate only that
  guard; if it is true, stop, the cache as it is; if it is false, clear the cache and
  scan.
\<close>

fun spec_scan ::
  "('n, 'a, 'c) State \<Rightarrow> 'a \<Rightarrow> nat list \<Rightarrow> ('n, 'a, 'c) event list \<times> TransitionCache option" where
  "spec_scan s args [] = ([], None)"
| "spec_scan s args (j # js) =
     (if check_condition (transitions s ! j) (entity_id s) args
      then ([GuardCall (name s) j (entity_id s) args True],
            Some \<lparr>target = get_target (transitions s ! j), transition_idx = j\<rparr>)
      else (case spec_scan s args js of
              (evs, c) \<Rightarrow> (GuardCall (name s) j (entity_id s) args False # evs, c)))"

definition spec_probe_then_scan ::
  "('n, 'a, 'c) State \<Rightarrow> 'a \<Rightarrow> nat list \<Rightarrow> ('n, 'a, 'c) event list \<times> TransitionCache option" where
  "spec_probe_then_scan s args js =
     (case cache s of
        None \<Rightarrow> spec_scan s args js
      | Some c \<Rightarrow>
          (if check_condition (transitions s ! transition_idx c) (entity_id s) args
           then ([GuardCall (name s) (transition_idx c) (entity_id s) args True], Some c)
           else (case spec_scan s args js of
                   (evs, c') \<Rightarrow>
                     (GuardCall (name s) (transition_idx c) (entity_id s) args False # evs, c'))))"

subsection \<open>The demonstration program\<close>

text \<open>
  \<^verbatim>\<open>main.cpp\<close> instantiates the machine with an enumeration of three states and one
  \<^verbatim>\<open>float\<close> argument, the speed. The speeds and thresholds it uses are decimal
  fractions compared by \<^verbatim>\<open>>\<close>; they are taken as rationals here, on which the comparisons
  it makes have the same outcome. A callback is identified by the line it prints.
\<close>

datatype PlayerState = IDLE | WALKING | RUNNING

definition main_setup :: "(PlayerState, rat, string) call list" where
  "main_setup =
     [AddState IDLE 1, AddState WALKING 1, AddState RUNNING 1,
      AddTransition IDLE WALKING (\<lambda>eid speed. speed > 1 / 10),
      AddTransition WALKING RUNNING (\<lambda>eid speed. speed > 5),
      SetCallback WALKING (Some ''Entered WALKING'') (Some ''Exited WALKING state''),
      SetCallback RUNNING (Some ''Entered RUNNING state'') (Some ''Exited RUNNING state''),
      Start]"

definition main_calls :: "(PlayerState, rat, string) call list" where
  "main_calls = main_setup @ [Update (2 / 10), Update (2 / 10), Update 6]"

text \<open>
  The machine a sequence of calls leaves when made on the default-constructed machine
  (the default-constructed machine itself if a call fails).
\<close>

definition machine_after :: "('n, 'a, 'c) call list \<Rightarrow> ('n, 'a, 'c) StateMachine" where
  "machine_after cs =
     (case run StateMachine_init cs of Inl e \<Rightarrow> StateMachine_init | Inr (m, evs) \<Rightarrow> m)"

text \<open>
  Two more callers, on the states of the demonstration program: one gives \<open>IDLE\<close> two
  transitions, to \<open>WALKING\<close> first (above speed 5) and to \<open>RUNNING\<close> second (above
  speed 0.1), so that both guards hold at speed 6 and only the second at speed 1; the
  other gives \<open>IDLE\<close> a transition to itself.
\<close>

definition priority_setup :: "(PlayerState, rat, string) call list" where
  "priority_setup =
     [AddState IDLE 1, AddState WALKING 1, AddState RUNNING 1,
      AddTransition IDLE WALKING (\<lambda>eid speed. speed > 5),
      AddTransition IDLE RUNNING (\<lambda>eid speed. speed > 1 / 10)]"

definition loop_setup :: "(PlayerState, rat, string) call list" where
  "loop_setup =
     [AddState IDLE 1,
      AddTransition IDLE IDLE (\<lambda>eid speed. speed > 1 / 10),
      SetCallback IDLE (Some ''Entered IDLE'') (Some ''Exited IDLE'')]"

text \<open>Machines these callers lead to, by name.\<close>

definition demo_machine :: "(PlayerState, rat, string) StateMachine" where
  "demo_machine = machine_after main_setup"

definition priority_machine :: "(PlayerState, rat, string) StateMachine" where
  "priority_machine = machine_after priority_setup"

definition loop_machine :: "(PlayerState, rat, string) StateMachine" where
  "loop_machine = machine_after (loop_setup @ [Update 1])"

definition walking_machine :: "(PlayerState, rat, string) StateMachine" where
  "walking_machine = machine_after (main_setup @ [Update (2 / 10), Update (2 / 10)])"

definition running_machine :: "(PlayerState, rat, string) StateMachine" where
  "running_machine = machine_after main_calls"

definition queried_machine :: "(PlayerState, rat, string) StateMachine" where
  "queried_machine = machine_after (priority_setup @ [CanTransitionTo RUNNING 6])"

definition scanned_machine :: "(PlayerState, rat, string) StateMachine" where
  "scanned_machine = machine_after (priority_setup @ [Update 6])"

section \<open>Auxiliary facts\<close>

subsection \<open>The store and the loops\<close>

lemma heap_store [simp]: "heap (store m p s) = (heap m)[p := s]"
  and states_store [simp]: "states (store m p s) = states m"
  and current_state_store [simp]: "current_state (store m p s) = current_state m"
  by (simp_all add: store_def)

lemma store_same [simp]: "store m p (heap m ! p) = m"
  by (simp add: store_def)

lemma store_store [simp]: "store (store m p s) p s' = store m p s'"
  by (simp add: store_def)

lemma enter_cache [simp]: "enter (s\<lparr>cache := c\<rparr>) cur = enter s cur"
  and exit_cache [simp]: "exit (s\<lparr>cache := c\<rparr>) cur = exit s cur"
  by (simp_all add: enter_def exit_def split: option.splits)

lemma handle_transition_ok:
  assumes "current_state m = Some p" and "p < length (heap m)" and "q < length (heap m)"
  shows "handle_transition m q =
           Inr (m\<lparr>current_state := Some q\<rparr>,
                exit (heap m ! p) (Some p) @ enter (heap m ! q) (Some q))"
  using assms by (simp add: handle_transition_def deref_def Let_def)

lemma update_loop_no_match:
  assumes "\<forall>j. i \<le> j \<and> j < length (transitions cur) \<longrightarrow>
             \<not> check_condition (transitions cur ! j) (entity_id cur) args"
  shows "update_loop m p cur args i =
           Inr (m, map (\<lambda>j. GuardCall (name cur) j (entity_id cur) args False)
                       [i..<length (transitions cur)])"
  using assms
proof (induction m p cur args i rule: update_loop.induct)
  case (1 m p cur args i)
  show ?case
  proof (cases "i < length (transitions cur)")
    case True
    with "1.prems" have nc: "\<not> check_condition (transitions cur ! i) (entity_id cur) args"
      by simp
    from "1.prems" have "\<forall>j. Suc i \<le> j \<and> j < length (transitions cur) \<longrightarrow>
             \<not> check_condition (transitions cur ! j) (entity_id cur) args"
      by simp
    with "1.IH" True nc have "update_loop m p cur args (Suc i) =
           Inr (m, map (\<lambda>j. GuardCall (name cur) j (entity_id cur) args False)
                       [Suc i..<length (transitions cur)])"
      by simp
    with True nc show ?thesis
      by (subst update_loop.simps) (simp add: upt_conv_Cons)
  next
    case False
    then show ?thesis by (subst update_loop.simps) simp
  qed
qed

lemma update_loop_match:
  assumes "i \<le> k" and "k < length (transitions cur)"
    and "check_condition (transitions cur ! k) (entity_id cur) args"
    and "\<forall>j. i \<le> j \<and> j < k \<longrightarrow> \<not> check_condition (transitions cur ! j) (entity_id cur) args"
  shows "update_loop m p cur args i =
           (case handle_transition
                   (store m p (update_cache cur k (get_target (transitions cur ! k))))
                   (get_target (transitions cur ! k)) of
              Inl e \<Rightarrow> Inl e
            | Inr (m2, evs) \<Rightarrow>
                Inr (m2, map (\<lambda>j. GuardCall (name cur) j (entity_id cur) args False) [i..<k] @
                         GuardCall (name cur) k (entity_id cur) args True # evs))"
  using assms
proof (induction m p cur args i rule: update_loop.induct)
  case (1 m p cur args i)
  show ?case
  proof (cases "i = k")
    case True
    with "1.prems" show ?thesis
      by (subst update_loop.simps) (simp split: sum.splits prod.splits)
  next
    case False
    with "1.prems" have lt: "i < k" and il: "i < length (transitions cur)" by simp_all
    with "1.prems" have nc: "\<not> check_condition (transitions cur ! i) (entity_id cur) args"
      by simp
    from "1.prems" lt have "\<forall>j. Suc i \<le> j \<and> j < k \<longrightarrow>
             \<not> check_condition (transitions cur ! j) (entity_id cur) args" by simp
    with "1.IH" [OF il nc] lt "1.prems" have ih: "update_loop m p cur args (Suc i) =
           (case handle_transition
                   (store m p (update_cache cur k (get_target (transitions cur ! k))))
                   (get_target (transitions cur ! k)) of
              Inl e \<Rightarrow> Inl e
            | Inr (m2, evs) \<Rightarrow>
                Inr (m2, map (\<lambda>j. GuardCall (name cur) j (entity_id cur) args False) [Suc i..<k] @
                         GuardCall (name cur) k (entity_id cur) args True # evs))"
      by simp
    from il nc lt show ?thesis
      by (subst update_loop.simps) (simp add: ih upt_conv_Cons split: sum.splits prod.splits)
  qed
qed

lemma first_match_cases:
  fixes P :: "nat \<Rightarrow> bool"
  shows "(\<forall>j<n. \<not> P j) \<or> (\<exists>k<n. P k \<and> (\<forall>j<k. \<not> P j))"
proof (cases "\<exists>j<n. P j")
  case True
  then obtain j where j: "j < n" "P j" by blast
  define k where "k = (LEAST i. P i)"
  have "P k" unfolding k_def using j(2) by (rule LeastI)
  moreover have "k \<le> j" unfolding k_def using j(2) by (rule Least_le)
  moreover have "\<forall>i<k. \<not> P i" unfolding k_def using not_less_Least by blast
  ultimately have "k < n \<and> P k \<and> (\<forall>i<k. \<not> P i)" using j(1) by simp
  then show ?thesis by blast
next
  case False
  then show ?thesis by blast
qed

lemma can_transition_to_loop_no_match:
  assumes "\<forall>j. i \<le> j \<and> j < length (transitions cur) \<longrightarrow>
             \<not> (get_target (transitions cur ! j) = tgt \<and>
                check_condition (transitions cur ! j) (entity_id cur) args)"
  shows "can_transition_to_loop m p cur tgt args i =
           (False, m, map (\<lambda>j. GuardCall (name cur) j (entity_id cur) args False)
                       (filter (\<lambda>j. get_target (transitions cur ! j) = tgt)
                          [i..<length (transitions cur)]))"
  using assms
proof (induction m p cur tgt args i rule: can_transition_to_loop.induct)
  case (1 m p cur tgt args i)
  show ?case
  proof (cases "i < length (transitions cur)")
    case True
    from "1.prems" have rest: "\<forall>j. Suc i \<le> j \<and> j < length (transitions cur) \<longrightarrow>
             \<not> (get_target (transitions cur ! j) = tgt \<and>
                check_condition (transitions cur ! j) (entity_id cur) args)"
      by simp
    from "1.prems" True have nc: "get_target (transitions cur ! i) = tgt \<Longrightarrow>
        \<not> check_condition (transitions cur ! i) (entity_id cur) args"
      by simp
    show ?thesis
    proof (cases "get_target (transitions cur ! i) = tgt")
      case eq: True
      from "1.IH"(1) [OF True eq nc [OF eq] rest] True eq nc [OF eq] show ?thesis
        by (subst can_transition_to_loop.simps) (simp add: upt_conv_Cons)
    next
      case ne: False
      from "1.IH"(2) [OF True ne rest] True ne show ?thesis
        by (subst can_transition_to_loop.simps) (simp add: upt_conv_Cons)
    qed
  next
    case False
    then show ?thesis by (subst can_transition_to_loop.simps) simp
  qed
qed

lemma can_transition_to_loop_match:
  assumes "i \<le> k" and "k < length (transitions cur)"
    and "get_target (transitions cur ! k) = tgt"
    and "check_condition (transitions cur ! k) (entity_id cur) args"
    and "\<forall>j. i \<le> j \<and> j < k \<longrightarrow>
           \<not> (get_target (transitions cur ! j) = tgt \<and>
              check_condition (transitions cur ! j) (entity_id cur) args)"
  shows "can_transition_to_loop m p cur tgt args i =
           (True, store m p (update_cache cur k tgt),
            map (\<lambda>j. GuardCall (name cur) j (entity_id cur) args False)
                (filter (\<lambda>j. get_target (transitions cur ! j) = tgt) [i..<k]) @
            [GuardCall (name cur) k (entity_id cur) args True])"
  using assms
proof (induction m p cur tgt args i rule: can_transition_to_loop.induct)
  case (1 m p cur tgt args i)
  show ?case
  proof (cases "i = k")
    case True
    with "1.prems" show ?thesis
      by (subst can_transition_to_loop.simps) simp
  next
    case False
    with "1.prems" have lt: "i < k" and il: "i < length (transitions cur)" by simp_all
    from "1.prems" lt have rest: "\<forall>j. Suc i \<le> j \<and> j < k \<longrightarrow>
           \<not> (get_target (transitions cur ! j) = tgt \<and>
              check_condition (transitions cur ! j) (entity_id cur) args)" by simp
    from "1.prems" lt have nc: "get_target (transitions cur ! i) = tgt \<Longrightarrow>
        \<not> check_condition (transitions cur ! i) (entity_id cur) args"
      by simp
    from lt have sk: "Suc i \<le> k" by simp
    show ?thesis
    proof (cases "get_target (transitions cur ! i) = tgt")
      case eq: True
      from "1.IH"(1) [OF il eq nc [OF eq] sk "1.prems"(2,3,4) rest] il eq nc [OF eq] lt
      show ?thesis
        by (subst can_transition_to_loop.simps) (simp add: upt_conv_Cons)
    next
      case ne: False
      from "1.IH"(2) [OF il ne sk "1.prems"(2,3,4) rest] il ne lt show ?thesis
        by (subst can_transition_to_loop.simps) (simp add: upt_conv_Cons)
    qed
  qed
qed

subsection \<open>Consequences of well-formedness\<close>

lemma wf_currentD:
  assumes "wf m" and "current_state m = Some p"
  shows "p < length (heap m)" and "cache_ok (heap m ! p)"
    and "\<And>i. i < length (transitions (heap m ! p)) \<Longrightarrow>
           get_target (transitions (heap m ! p) ! i) < length (heap m)"
proof -
  from assms show p: "p < length (heap m)" by (simp add: wf_def)
  then have "heap m ! p \<in> set (heap m)" by simp
  with assms(1) show "cache_ok (heap m ! p)"
    and "\<And>i. i < length (transitions (heap m ! p)) \<Longrightarrow>
           get_target (transitions (heap m ! p) ! i) < length (heap m)"
    by (simp_all add: wf_def)
qed

lemma wf_store:
  assumes "wf m" and "p < length (heap m)" and "name s = name (heap m ! p)"
    and "cache_ok s" and "\<forall>t \<in> set (transitions s). get_target t < length (heap m)"
  shows "wf (store m p s)"
proof -
  have "x \<in> set ((heap m)[p := s]) \<Longrightarrow> x = s \<or> x \<in> set (heap m)" for x
    using set_update_subset_insert [of "heap m" p s] by blast
  moreover have "name ((heap m)[p := s] ! q) = name (heap m ! q)" if "q < length (heap m)" for q
    using assms(2,3) that by (cases "q = p") simp_all
  ultimately show ?thesis
    using assms unfolding wf_def by (simp del: set_update_subset_insert) blast
qed

lemma wf_set_current:
  assumes "wf m" and "q < length (heap m)"
  shows "wf (m\<lparr>current_state := Some q\<rparr>)"
  using assms by (simp add: wf_def)

lemma cache_ok_reset [simp]: "cache_ok (s\<lparr>cache := None\<rparr>)"
  by (simp add: cache_ok_def)

lemma cache_ok_update_cache:
  "i < length (transitions s) \<Longrightarrow> get_target (transitions s ! i) = tgt \<Longrightarrow>
   cache_ok (update_cache s i tgt)"
  by (simp add: cache_ok_def update_cache_def)

lemma reset_empty_cache: "cache s = None \<Longrightarrow> s\<lparr>cache := None\<rparr> = s"
  by (cases s) simp

lemma heap_cache_upd_fields:
  assumes "p < length h"
  shows "on_enter (h[p := (h ! p)\<lparr>cache := c\<rparr>] ! q) = on_enter (h ! q)"
    and "on_exit (h[p := (h ! p)\<lparr>cache := c\<rparr>] ! q) = on_exit (h ! q)"
    and "entity_id (h[p := (h ! p)\<lparr>cache := c\<rparr>] ! q) = entity_id (h ! q)"
    and "name (h[p := (h ! p)\<lparr>cache := c\<rparr>] ! q) = name (h ! q)"
    and "transitions (h[p := (h ! p)\<lparr>cache := c\<rparr>] ! q) = transitions (h ! q)"
  using assms by (cases "q = p"; cases "q < length h"; simp)+

lemma enter_heap_cache_upd:
  assumes "p < length h"
  shows "enter (h[p := (h ! p)\<lparr>cache := c\<rparr>] ! q) x = enter (h ! q) x"
  using heap_cache_upd_fields [OF assms] by (simp add: enter_def split: option.splits)

subsection \<open>The ways an update goes\<close>

text \<open>The four ways an \<open>update\<close> call goes on a well-formed machine.\<close>

lemma update_hit:
  assumes "wf m" and "current_state m = Some p" and "cache (heap m ! p) = Some c"
    and "check_condition (transitions (heap m ! p) ! transition_idx c)
           (entity_id (heap m ! p)) args"
  shows "update m args =
           Inr (m\<lparr>current_state := Some (target c)\<rparr>,
                GuardCall (name (heap m ! p)) (transition_idx c) (entity_id (heap m ! p)) args True
                # exit (heap m ! p) (Some p) @ enter (heap m ! target c) (Some (target c)))"
    and "target c < length (heap m)"
    and "transition_idx c < length (transitions (heap m ! p))"
    and "get_target (transitions (heap m ! p) ! transition_idx c) = target c"
proof -
  note cur = wf_currentD [OF assms(1,2)]
  from cur(2) assms(3) show idx: "transition_idx c < length (transitions (heap m ! p))"
    and tgt: "get_target (transitions (heap m ! p) ! transition_idx c) = target c"
    by (simp_all add: cache_ok_def)
  from cur(3) [OF idx] tgt show q: "target c < length (heap m)" by simp
  from assms idx cur(1) have "try_cached_transition (heap m ! p) (entity_id (heap m ! p)) args =
      Inr (True, heap m ! p,
           [GuardCall (name (heap m ! p)) (transition_idx c) (entity_id (heap m ! p)) args True])"
    by (simp add: try_cached_transition_def try_transition_def)
  with assms(2,3) cur(1) q show "update m args =
           Inr (m\<lparr>current_state := Some (target c)\<rparr>,
                GuardCall (name (heap m ! p)) (transition_idx c) (entity_id (heap m ! p)) args True
                # exit (heap m ! p) (Some p) @ enter (heap m ! target c) (Some (target c)))"
    by (simp add: update_def deref_def handle_transition_ok)
qed

lemma update_probe_miss:
  assumes "wf m" and "current_state m = Some p" and "cache (heap m ! p) = Some c"
    and "\<not> check_condition (transitions (heap m ! p) ! transition_idx c)
             (entity_id (heap m ! p)) args"
  shows "update m args =
           (case update (store m p ((heap m ! p)\<lparr>cache := None\<rparr>)) args of
              Inl e \<Rightarrow> Inl e
            | Inr (m2, evs) \<Rightarrow>
                Inr (m2, GuardCall (name (heap m ! p)) (transition_idx c)
                           (entity_id (heap m ! p)) args False # evs))"
proof -
  note cur = wf_currentD [OF assms(1,2)]
  from cur(2) assms(3) have idx: "transition_idx c < length (transitions (heap m ! p))"
    by (simp add: cache_ok_def)
  from assms idx have probe: "try_cached_transition (heap m ! p) (entity_id (heap m ! p)) args =
      Inr (False, (heap m ! p)\<lparr>cache := None\<rparr>,
           [GuardCall (name (heap m ! p)) (transition_idx c) (entity_id (heap m ! p)) args False])"
    by (simp add: try_cached_transition_def try_transition_def)
  have probe': "try_cached_transition ((heap m ! p)\<lparr>cache := None\<rparr>) eid args =
      Inr (False, (heap m ! p)\<lparr>cache := None\<rparr>, [])" for eid
    by (simp add: try_cached_transition_def)
  from assms(2) cur(1) probe probe' show ?thesis
    by (simp add: update_def deref_def split: sum.splits prod.splits)
qed

lemma update_scan_match:
  assumes "wf m" and "current_state m = Some p" and "cache (heap m ! p) = None"
    and "k < length (transitions (heap m ! p))"
    and "check_condition (transitions (heap m ! p) ! k) (entity_id (heap m ! p)) args"
    and "\<forall>j<k. \<not> check_condition (transitions (heap m ! p) ! j) (entity_id (heap m ! p)) args"
  shows "update m args =
           Inr ((store m p (update_cache (heap m ! p) k (get_target (transitions (heap m ! p) ! k))))
                  \<lparr>current_state := Some (get_target (transitions (heap m ! p) ! k))\<rparr>,
                map (\<lambda>j. GuardCall (name (heap m ! p)) j (entity_id (heap m ! p)) args False) [0..<k] @
                GuardCall (name (heap m ! p)) k (entity_id (heap m ! p)) args True #
                exit (heap m ! p) (Some p) @
                enter (heap m ! get_target (transitions (heap m ! p) ! k))
                  (Some (get_target (transitions (heap m ! p) ! k))))"
proof -
  note cur = wf_currentD [OF assms(1,2)]
  let ?cur = "heap m ! p"
  let ?q = "get_target (transitions ?cur ! k)"
  from cur(3) [OF assms(4)] have q: "?q < length (heap m)" .
  from assms(3) have probe: "try_cached_transition ?cur (entity_id ?cur) args = Inr (False, ?cur, [])"
    by (simp add: try_cached_transition_def reset_empty_cache)
  from assms(2) cur(1) q
  have ht: "handle_transition (store m p (update_cache ?cur k ?q)) ?q =
      Inr ((store m p (update_cache ?cur k ?q))\<lparr>current_state := Some ?q\<rparr>,
           exit ?cur (Some p) @ enter (heap m ! ?q) (Some ?q))"
    by (subst handle_transition_ok [where p = p])
       (simp_all add: update_cache_def enter_heap_cache_upd)
  from assms(4,5,6) have "update_loop m p ?cur args 0 =
      Inr ((store m p (update_cache ?cur k ?q))\<lparr>current_state := Some ?q\<rparr>,
           map (\<lambda>j. GuardCall (name ?cur) j (entity_id ?cur) args False) [0..<k] @
           GuardCall (name ?cur) k (entity_id ?cur) args True #
           exit ?cur (Some p) @ enter (heap m ! ?q) (Some ?q))"
    by (subst update_loop_match [where k = k]) (simp_all add: ht)
  with assms(2) cur(1) probe show ?thesis
    by (simp add: update_def deref_def)
qed

lemma update_scan_no_match:
  assumes "wf m" and "current_state m = Some p" and "cache (heap m ! p) = None"
    and "\<forall>j<length (transitions (heap m ! p)).
           \<not> check_condition (transitions (heap m ! p) ! j) (entity_id (heap m ! p)) args"
  shows "update m args =
           Inr (m, map (\<lambda>j. GuardCall (name (heap m ! p)) j (entity_id (heap m ! p)) args False)
                       [0..<length (transitions (heap m ! p))])"
proof -
  note cur = wf_currentD [OF assms(1,2)]
  let ?cur = "heap m ! p"
  from assms(3) have probe: "try_cached_transition ?cur (entity_id ?cur) args = Inr (False, ?cur, [])"
    by (simp add: try_cached_transition_def reset_empty_cache)
  from assms(4) have "update_loop m p ?cur args 0 =
      Inr (m, map (\<lambda>j. GuardCall (name ?cur) j (entity_id ?cur) args False)
                  [0..<length (transitions ?cur)])"
    by (subst update_loop_no_match) simp_all
  with assms(2) cur(1) probe show ?thesis
    by (simp add: update_def deref_def)
qed

subsection \<open>Well-formedness is invariant\<close>

lemma wf_init: "wf StateMachine_init"
  by (simp add: wf_def StateMachine_init_def)

lemma wf_add_state:
  assumes "wf m"
  shows "wf (snd (add_state m n eid))"
proof (cases "states m n")
  case None
  have "cache_ok (new_State n eid :: ('a, 'b, 'c) State)"
    by (simp add: cache_ok_def new_State_def)
  moreover have "transitions (new_State n eid :: ('a, 'b, 'c) State) = []"
    and "name (new_State n eid :: ('a, 'b, 'c) State) = n"
    by (simp_all add: new_State_def)
  ultimately show ?thesis
    using assms None unfolding wf_def add_state_def
    by (auto simp: Let_def nth_append less_Suc_eq split: if_splits)
next
  case (Some p)
  with assms show ?thesis by (simp add: add_state_def)
qed

lemma wf_add_transition:
  assumes "wf m" and "add_transition m n1 n2 cond = Inr m1"
  shows "wf m1"
proof -
  from assms(2) obtain pf pt where pf: "states m n1 = Some pf" and pt: "states m n2 = Some pt"
    and lt: "pf < length (heap m)"
    and m1: "m1 = store m pf (State_add_transition (heap m ! pf) \<lparr>to = pt, condition = cond\<rparr>)"
    by (auto simp: add_transition_def deref_def split: option.splits if_splits)
  from assms(1) pt have ptl: "pt < length (heap m)" by (simp add: wf_def)
  from lt have mem: "heap m ! pf \<in> set (heap m)" by simp
  with assms(1) have ok: "cache_ok (heap m ! pf)"
    and tg: "\<forall>t \<in> set (transitions (heap m ! pf)). get_target t < length (heap m)"
    by (simp_all add: wf_def)
  from ok have "cache_ok (State_add_transition (heap m ! pf) \<lparr>to = pt, condition = cond\<rparr>)"
    by (auto simp: cache_ok_def State_add_transition_def nth_append split: option.splits)
  moreover from tg ptl
  have "\<forall>t \<in> set (transitions (State_add_transition (heap m ! pf) \<lparr>to = pt, condition = cond\<rparr>)).
          get_target t < length (heap m)"
    by (simp add: State_add_transition_def get_target_def)
  ultimately show ?thesis
    unfolding m1 using assms(1) lt
    by (intro wf_store) (simp_all add: State_add_transition_def)
qed

lemma wf_set_callback:
  assumes "wf m" and "set_callback m n f g = Inr m1"
  shows "wf m1"
proof -
  from assms(2) obtain p where p: "states m n = Some p" and lt: "p < length (heap m)"
    and m1: "m1 = store m p (set_callbacks (heap m ! p) f g)"
    by (auto simp: set_callback_def deref_def split: option.splits if_splits)
  from lt have mem: "heap m ! p \<in> set (heap m)" by simp
  with assms(1) have ok: "cache_ok (heap m ! p)"
    and tg: "\<forall>t \<in> set (transitions (heap m ! p)). get_target t < length (heap m)"
    by (simp_all add: wf_def)
  have same: "cache (set_callbacks (heap m ! p) f g) = cache (heap m ! p)"
    "transitions (set_callbacks (heap m ! p) f g) = transitions (heap m ! p)"
    "name (set_callbacks (heap m ! p) f g) = name (heap m ! p)"
    by (simp_all add: set_callbacks_def Let_def)
  from ok same have "cache_ok (set_callbacks (heap m ! p) f g)"
    by (simp add: cache_ok_def split: option.splits)
  with tg same show ?thesis
    unfolding m1 using assms(1) lt by (intro wf_store) simp_all
qed

lemma wf_reset_current:
  assumes "wf m" and "current_state m = Some p"
  shows "wf (store m p ((heap m ! p)\<lparr>cache := None\<rparr>))"
proof -
  note cur = wf_currentD [OF assms]
  from cur(1) have "heap m ! p \<in> set (heap m)" by simp
  with assms(1) have "\<forall>t \<in> set (transitions (heap m ! p)). get_target t < length (heap m)"
    by (simp add: wf_def)
  with assms(1) cur(1) show ?thesis by (intro wf_store) simp_all
qed

lemma wf_update_empty:
  assumes "wf m" and "current_state m = Some p" and "cache (heap m ! p) = None"
    and "update m args = Inr (m1, evs)"
  shows "wf m1"
proof -
  note cur = wf_currentD [OF assms(1,2)]
  let ?cur = "heap m ! p"
  let ?P = "\<lambda>j. check_condition (transitions ?cur ! j) (entity_id ?cur) args"
  from cur(1) have mem: "?cur \<in> set (heap m)" by simp
  with assms(1) have tg: "\<forall>t \<in> set (transitions ?cur). get_target t < length (heap m)"
    by (simp add: wf_def)
  from first_match_cases [of "length (transitions ?cur)" ?P] show ?thesis
  proof
    assume "\<forall>j<length (transitions ?cur). \<not> ?P j"
    from update_scan_no_match [OF assms(1,2,3) this] assms(4,1) show ?thesis by simp
  next
    assume "\<exists>k<length (transitions ?cur). ?P k \<and> (\<forall>j<k. \<not> ?P j)"
    then obtain k where k: "k < length (transitions ?cur)" "?P k" "\<forall>j<k. \<not> ?P j" by blast
    let ?q = "get_target (transitions ?cur ! k)"
    from update_scan_match [OF assms(1,2,3) k] assms(4)
    have m1: "m1 = (store m p (update_cache ?cur k ?q))\<lparr>current_state := Some ?q\<rparr>" by simp
    have "wf (store m p (update_cache ?cur k ?q))"
      using assms(1) cur(1) tg k(1)
      by (intro wf_store) (simp_all add: cache_ok_update_cache, simp_all add: update_cache_def)
    with cur(3) [OF k(1)] show ?thesis
      unfolding m1 by (intro wf_set_current) simp_all
  qed
qed

lemma wf_update:
  assumes "wf m" and "update m args = Inr (m1, evs)"
  shows "wf m1"
proof -
  from assms(2) obtain p where p: "current_state m = Some p"
    by (auto simp: update_def split: option.splits)
  note cur = wf_currentD [OF assms(1) p]
  show ?thesis
  proof (cases "cache (heap m ! p)")
    case None
    from wf_update_empty [OF assms(1) p None assms(2)] show ?thesis .
  next
    case (Some c)
    show ?thesis
    proof (cases "check_condition (transitions (heap m ! p) ! transition_idx c)
                    (entity_id (heap m ! p)) args")
      case True
      from update_hit [OF assms(1) p Some True] assms(2)
      have "m1 = m\<lparr>current_state := Some (target c)\<rparr>" and "target c < length (heap m)"
        by simp_all
      with assms(1) show ?thesis by (simp add: wf_set_current)
    next
      case False
      let ?m0 = "store m p ((heap m ! p)\<lparr>cache := None\<rparr>)"
      from update_probe_miss [OF assms(1) p Some False] assms(2)
      obtain evs0 where u0: "update ?m0 args = Inr (m1, evs0)"
        by (auto split: sum.splits prod.splits)
      have "wf ?m0" using assms(1) p by (rule wf_reset_current)
      moreover have "current_state ?m0 = Some p" using p by simp
      moreover have "cache (heap ?m0 ! p) = None" using cur(1) by simp
      ultimately show ?thesis using u0 by (rule wf_update_empty)
    qed
  qed
qed

subsection \<open>The ways a query goes\<close>

text \<open>The four ways a \<open>can_transition_to\<close> call goes on a well-formed machine.\<close>

lemma can_transition_to_hit:
  assumes "wf m" and "current_state m = Some p" and "states m n = Some tgt"
    and "cache (heap m ! p) = Some c"
    and "check_condition (transitions (heap m ! p) ! transition_idx c)
           (entity_id (heap m ! p)) args"
  shows "can_transition_to m n args =
           Inr (target c = tgt, m,
                [GuardCall (name (heap m ! p)) (transition_idx c) (entity_id (heap m ! p)) args True])"
proof -
  note cur = wf_currentD [OF assms(1,2)]
  from cur(2) assms(4) have idx: "transition_idx c < length (transitions (heap m ! p))"
    by (simp add: cache_ok_def)
  from assms idx have "try_cached_transition (heap m ! p) (entity_id (heap m ! p)) args =
      Inr (True, heap m ! p,
           [GuardCall (name (heap m ! p)) (transition_idx c) (entity_id (heap m ! p)) args True])"
    by (simp add: try_cached_transition_def try_transition_def)
  with assms(2,3,4) cur(1) show ?thesis
    by (simp add: can_transition_to_def deref_def)
qed

lemma can_transition_to_probe_miss:
  assumes "wf m" and "current_state m = Some p" and "states m n = Some tgt"
    and "cache (heap m ! p) = Some c"
    and "\<not> check_condition (transitions (heap m ! p) ! transition_idx c)
             (entity_id (heap m ! p)) args"
  shows "can_transition_to m n args =
           (case can_transition_to (store m p ((heap m ! p)\<lparr>cache := None\<rparr>)) n args of
              Inl e \<Rightarrow> Inl e
            | Inr (b, m2, evs) \<Rightarrow>
                Inr (b, m2, GuardCall (name (heap m ! p)) (transition_idx c)
                              (entity_id (heap m ! p)) args False # evs))"
proof -
  note cur = wf_currentD [OF assms(1,2)]
  from cur(2) assms(4) have idx: "transition_idx c < length (transitions (heap m ! p))"
    by (simp add: cache_ok_def)
  from assms idx have probe: "try_cached_transition (heap m ! p) (entity_id (heap m ! p)) args =
      Inr (False, (heap m ! p)\<lparr>cache := None\<rparr>,
           [GuardCall (name (heap m ! p)) (transition_idx c) (entity_id (heap m ! p)) args False])"
    by (simp add: try_cached_transition_def try_transition_def)
  have probe': "try_cached_transition ((heap m ! p)\<lparr>cache := None\<rparr>) eid args =
      Inr (False, (heap m ! p)\<lparr>cache := None\<rparr>, [])" for eid
    by (simp add: try_cached_transition_def)
  from assms(2,3) cur(1) probe probe' show ?thesis
    by (simp add: can_transition_to_def deref_def split: sum.splits prod.splits)
qed

lemma can_transition_to_scan_match:
  assumes "wf m" and "current_state m = Some p" and "states m n = Some tgt"
    and "cache (heap m ! p) = None"
    and "k < length (transitions (heap m ! p))"
    and "get_target (transitions (heap m ! p) ! k) = tgt"
    and "check_condition (transitions (heap m ! p) ! k) (entity_id (heap m ! p)) args"
    and "\<forall>j<k. \<not> (get_target (transitions (heap m ! p) ! j) = tgt \<and>
                  check_condition (transitions (heap m ! p) ! j) (entity_id (heap m ! p)) args)"
  shows "can_transition_to m n args =
           Inr (True, store m p (update_cache (heap m ! p) k tgt),
                map (\<lambda>j. GuardCall (name (heap m ! p)) j (entity_id (heap m ! p)) args False)
                    (filter (\<lambda>j. get_target (transitions (heap m ! p) ! j) = tgt) [0..<k]) @
                [GuardCall (name (heap m ! p)) k (entity_id (heap m ! p)) args True])"
proof -
  note cur = wf_currentD [OF assms(1,2)]
  let ?cur = "heap m ! p"
  from assms(4) have probe: "try_cached_transition ?cur (entity_id ?cur) args = Inr (False, ?cur, [])"
    by (simp add: try_cached_transition_def reset_empty_cache)
  from assms(5,6,7,8) have "can_transition_to_loop m p ?cur tgt args 0 =
      (True, store m p (update_cache ?cur k tgt),
       map (\<lambda>j. GuardCall (name ?cur) j (entity_id ?cur) args False)
           (filter (\<lambda>j. get_target (transitions ?cur ! j) = tgt) [0..<k]) @
       [GuardCall (name ?cur) k (entity_id ?cur) args True])"
    by (subst can_transition_to_loop_match [where k = k]) simp_all
  with assms(2,3) cur(1) probe show ?thesis
    by (simp add: can_transition_to_def deref_def)
qed

lemma can_transition_to_scan_no_match:
  assumes "wf m" and "current_state m = Some p" and "states m n = Some tgt"
    and "cache (heap m ! p) = None"
    and "\<forall>j<length (transitions (heap m ! p)).
           \<not> (get_target (transitions (heap m ! p) ! j) = tgt \<and>
              check_condition (transitions (heap m ! p) ! j) (entity_id (heap m ! p)) args)"
  shows "can_transition_to m n args =
           Inr (False, m,
                map (\<lambda>j. GuardCall (name (heap m ! p)) j (entity_id (heap m ! p)) args False)
                    (filter (\<lambda>j. get_target (transitions (heap m ! p) ! j) = tgt)
                       [0..<length (transitions (heap m ! p))]))"
proof -
  note cur = wf_currentD [OF assms(1,2)]
  let ?cur = "heap m ! p"
  from assms(4) have probe: "try_cached_transition ?cur (entity_id ?cur) args = Inr (False, ?cur, [])"
    by (simp add: try_cached_transition_def reset_empty_cache)
  from assms(5) have "can_transition_to_loop m p ?cur tgt args 0 =
      (False, m, map (\<lambda>j. GuardCall (name ?cur) j (entity_id ?cur) args False)
                  (filter (\<lambda>j. get_target (transitions ?cur ! j) = tgt)
                     [0..<length (transitions ?cur)]))"
    by (subst can_transition_to_loop_no_match) simp_all
  with assms(2,3) cur(1) probe show ?thesis
    by (simp add: can_transition_to_def deref_def)
qed

subsection \<open>Every call keeps a machine well-formed\<close>

lemma wf_can_transition_to_empty:
  assumes "wf m" and "current_state m = Some p" and "cache (heap m ! p) = None"
    and "can_transition_to m n args = Inr (b, m1, evs)"
  shows "wf m1"
proof -
  from assms(4) obtain tgt where tgt: "states m n = Some tgt"
    by (auto simp: can_transition_to_def split: option.splits)
  note cur = wf_currentD [OF assms(1,2)]
  let ?cur = "heap m ! p"
  let ?P = "\<lambda>j. get_target (transitions ?cur ! j) = tgt \<and>
                 check_condition (transitions ?cur ! j) (entity_id ?cur) args"
  from cur(1) have mem: "?cur \<in> set (heap m)" by simp
  with assms(1) have tg: "\<forall>t \<in> set (transitions ?cur). get_target t < length (heap m)"
    by (simp add: wf_def)
  from first_match_cases [of "length (transitions ?cur)" ?P] show ?thesis
  proof
    assume "\<forall>j<length (transitions ?cur). \<not> ?P j"
    from can_transition_to_scan_no_match [OF assms(1,2) tgt assms(3) this] assms(4,1)
    show ?thesis by simp
  next
    assume "\<exists>k<length (transitions ?cur). ?P k \<and> (\<forall>j<k. \<not> ?P j)"
    then obtain k where k: "k < length (transitions ?cur)"
      "get_target (transitions ?cur ! k) = tgt"
      "check_condition (transitions ?cur ! k) (entity_id ?cur) args" "\<forall>j<k. \<not> ?P j" by blast
    from can_transition_to_scan_match [OF assms(1,2) tgt assms(3) k] assms(4)
    have m1: "m1 = store m p (update_cache ?cur k tgt)" by simp
    show ?thesis
      unfolding m1 using assms(1) cur(1) tg k(1,2)
      by (intro wf_store) (simp_all add: cache_ok_update_cache, simp_all add: update_cache_def)
  qed
qed

lemma wf_can_transition_to:
  assumes "wf m" and "can_transition_to m n args = Inr (b, m1, evs)"
  shows "wf m1"
proof -
  from assms(2) obtain p tgt where p: "current_state m = Some p" and tgt: "states m n = Some tgt"
    by (auto simp: can_transition_to_def split: option.splits)
  note cur = wf_currentD [OF assms(1) p]
  show ?thesis
  proof (cases "cache (heap m ! p)")
    case None
    from wf_can_transition_to_empty [OF assms(1) p None assms(2)] show ?thesis .
  next
    case (Some c)
    show ?thesis
    proof (cases "check_condition (transitions (heap m ! p) ! transition_idx c)
                    (entity_id (heap m ! p)) args")
      case True
      from can_transition_to_hit [OF assms(1) p tgt Some True] assms(2)
      have "m1 = m" by simp
      with assms(1) show ?thesis by simp
    next
      case False
      let ?m0 = "store m p ((heap m ! p)\<lparr>cache := None\<rparr>)"
      from can_transition_to_probe_miss [OF assms(1) p tgt Some False] assms(2)
      obtain b0 evs0 where u0: "can_transition_to ?m0 n args = Inr (b0, m1, evs0)"
        by (auto split: sum.splits prod.splits)
      have "wf ?m0" using assms(1) p by (rule wf_reset_current)
      moreover have "current_state ?m0 = Some p" using p by simp
      moreover have "cache (heap ?m0 ! p) = None" using cur(1) by simp
      ultimately show ?thesis using u0 by (rule wf_can_transition_to_empty)
    qed
  qed
qed

lemma wf_do_call:
  assumes "wf m" and "do_call m c = Inr (m1, evs)"
  shows "wf m1"
proof (cases c)
  case (AddState n eid)
  with assms show ?thesis by (auto simp: wf_add_state)
next
  case (AddTransition n1 n2 cond)
  with assms show ?thesis by (auto split: sum.splits dest: wf_add_transition)
next
  case (SetCallback n f g)
  with assms show ?thesis by (auto split: sum.splits dest: wf_set_callback)
next
  case Start
  with assms show ?thesis
    by (auto simp: start_def split: option.splits sum.splits)
next
  case (Update args)
  with assms show ?thesis by (auto dest: wf_update)
next
  case (CanTransitionTo n args)
  with assms show ?thesis by (auto split: sum.splits dest: wf_can_transition_to)
qed

lemma reachable_wf: "reachable m \<Longrightarrow> wf m"
  by (induction rule: reachable.induct) (auto intro: wf_init wf_do_call)

lemma run_reachable:
  "reachable m \<Longrightarrow> run m cs = Inr (m1, evs) \<Longrightarrow> reachable m1"
proof (induction cs arbitrary: m evs)
  case Nil
  then show ?case by simp
next
  case (Cons c cs)
  from Cons.prems(2) obtain m0 ev0 ev1 where c: "do_call m c = Inr (m0, ev0)"
    and r: "run m0 cs = Inr (m1, ev1)"
    by (auto split: sum.splits prod.splits)
  from Cons.prems(1) c have "reachable m0" by (rule reachable_call)
  from Cons.IH [OF this r] show ?case .
qed

subsection \<open>Machines reached by a caller\<close>

lemma reachable_machine_after: "reachable (machine_after cs)"
proof (cases "run StateMachine_init cs")
  case (Inl e)
  then show ?thesis by (simp add: machine_after_def reachable_init)
next
  case (Inr r)
  then obtain m evs where "run StateMachine_init cs = Inr (m, evs)" by (cases r) simp
  with run_reachable [OF reachable_init this] show ?thesis by (simp add: machine_after_def)
qed

lemmas eval_defs = machine_after_def main_calls_def main_setup_def
  priority_setup_def loop_setup_def StateMachine_init_def
  add_state_def add_transition_def set_callback_def start_def update_def can_transition_to_def
  get_current_state_def deref_def store_def handle_transition_def try_cached_transition_def
  try_transition_def update_cache_def set_callbacks_def enter_def exit_def new_State_def
  State_add_transition_def get_target_def check_condition_def Let_def
  update_loop.simps can_transition_to_loop.simps

subsection \<open>Events\<close>

lemma guard_calls_append [simp]: "guard_calls (xs @ ys) = guard_calls xs @ guard_calls ys"
  and callback_calls_append [simp]:
    "callback_calls (xs @ ys) = callback_calls xs @ callback_calls ys"
  by (simp_all add: guard_calls_def callback_calls_def)

lemma guard_calls_Nil [simp]: "guard_calls [] = []"
  and callback_calls_Nil [simp]: "callback_calls [] = []"
  and guard_calls_Guard [simp]:
    "guard_calls (GuardCall n i eid args b # evs) = GuardCall n i eid args b # guard_calls evs"
  and callback_calls_Guard [simp]:
    "callback_calls (GuardCall n i eid args b # evs) = callback_calls evs"
  by (simp_all add: guard_calls_def callback_calls_def)

lemma guard_calls_Callback [simp]:
    "guard_calls (CallbackCall f eid cur # evs) = guard_calls evs"
  and callback_calls_Callback [simp]:
    "callback_calls (CallbackCall f eid cur # evs) = CallbackCall f eid cur # callback_calls evs"
  by (simp_all add: guard_calls_def callback_calls_def)

lemma guard_calls_map [simp]:
    "guard_calls (map (\<lambda>j. GuardCall n j eid args b) js) = map (\<lambda>j. GuardCall n j eid args b) js"
  and callback_calls_map [simp]: "callback_calls (map (\<lambda>j. GuardCall n j eid args b) js) = []"
  by (induction js) simp_all

lemma guard_calls_enter [simp]: "guard_calls (enter s cur) = []"
  and guard_calls_exit [simp]: "guard_calls (exit s cur) = []"
  and callback_calls_enter [simp]: "callback_calls (enter s cur) = enter s cur"
  and callback_calls_exit [simp]: "callback_calls (exit s cur) = exit s cur"
  by (simp_all add: guard_calls_def callback_calls_def enter_def exit_def split: option.splits)

lemma guard_true_enter [simp]: "list_ex guard_true (enter s cur) = False"
  and guard_true_exit [simp]: "list_ex guard_true (exit s cur) = False"
  by (simp_all add: enter_def exit_def split: option.splits)

lemma guard_true_map_False [simp]:
  "list_ex guard_true (map (\<lambda>j. GuardCall n j eid args False) js) = False"
  by (induction js) simp_all

subsection \<open>The shape of an update\<close>

text \<open>
  On a well-formed machine with a current state an \<open>update\<close> call goes one of three ways:
  the cached guard holds and the cached transition is taken; or the probe fails (or the
  cache is empty) and the scan takes the first transition whose guard holds; or no guard
  holds. \<open>pre\<close> is the probe's guard call, if it made one.
\<close>

lemma update_cases [consumes 2, case_names hit match none]:
  assumes "wf m" and "current_state m = Some p"
  obtains
    (hit) c where "cache (heap m ! p) = Some c"
      and "check_condition (transitions (heap m ! p) ! transition_idx c)
             (entity_id (heap m ! p)) args"
      and "transition_idx c < length (transitions (heap m ! p))"
      and "get_target (transitions (heap m ! p) ! transition_idx c) = target c"
      and "target c < length (heap m)"
      and "update m args =
             Inr (m\<lparr>current_state := Some (target c)\<rparr>,
                  GuardCall (name (heap m ! p)) (transition_idx c) (entity_id (heap m ! p)) args True
                  # exit (heap m ! p) (Some p) @ enter (heap m ! target c) (Some (target c)))"
  | (match) pre k where
      "cache (heap m ! p) = None \<and> pre = [] \<or>
       (\<exists>c. cache (heap m ! p) = Some c \<and>
            \<not> check_condition (transitions (heap m ! p) ! transition_idx c)
                (entity_id (heap m ! p)) args \<and>
            pre = [GuardCall (name (heap m ! p)) (transition_idx c)
                     (entity_id (heap m ! p)) args False])"
      and "k < length (transitions (heap m ! p))"
      and "check_condition (transitions (heap m ! p) ! k) (entity_id (heap m ! p)) args"
      and "\<forall>j<k. \<not> check_condition (transitions (heap m ! p) ! j) (entity_id (heap m ! p)) args"
      and "get_target (transitions (heap m ! p) ! k) < length (heap m)"
      and "update m args =
             Inr ((store m p (update_cache (heap m ! p) k (get_target (transitions (heap m ! p) ! k))))
                    \<lparr>current_state := Some (get_target (transitions (heap m ! p) ! k))\<rparr>,
                  pre @
                  map (\<lambda>j. GuardCall (name (heap m ! p)) j (entity_id (heap m ! p)) args False) [0..<k] @
                  GuardCall (name (heap m ! p)) k (entity_id (heap m ! p)) args True #
                  exit (heap m ! p) (Some p) @
                  enter (heap m ! get_target (transitions (heap m ! p) ! k))
                    (Some (get_target (transitions (heap m ! p) ! k))))"
  | (none) pre where
      "cache (heap m ! p) = None \<and> pre = [] \<or>
       (\<exists>c. cache (heap m ! p) = Some c \<and>
            \<not> check_condition (transitions (heap m ! p) ! transition_idx c)
                (entity_id (heap m ! p)) args \<and>
            pre = [GuardCall (name (heap m ! p)) (transition_idx c)
                     (entity_id (heap m ! p)) args False])"
      and "\<forall>j<length (transitions (heap m ! p)).
             \<not> check_condition (transitions (heap m ! p) ! j) (entity_id (heap m ! p)) args"
      and "update m args =
             Inr (store m p ((heap m ! p)\<lparr>cache := None\<rparr>),
                  pre @
                  map (\<lambda>j. GuardCall (name (heap m ! p)) j (entity_id (heap m ! p)) args False)
                      [0..<length (transitions (heap m ! p))])"
proof -
  note cur = wf_currentD [OF assms]
  let ?cur = "heap m ! p"
  let ?P = "\<lambda>j. check_condition (transitions ?cur ! j) (entity_id ?cur) args"
  let ?m0 = "store m p (?cur\<lparr>cache := None\<rparr>)"
  have wf0: "wf ?m0" using assms by (rule wf_reset_current)
  have cur0: "current_state ?m0 = Some p" using assms(2) by simp
  have h0: "heap ?m0 ! p = ?cur\<lparr>cache := None\<rparr>" using cur(1) by simp
  have c0: "cache (heap ?m0 ! p) = None" using cur(1) by simp
  have scan_match: "update ?m0 args =
             Inr ((store m p (update_cache ?cur k (get_target (transitions ?cur ! k))))
                    \<lparr>current_state := Some (get_target (transitions ?cur ! k))\<rparr>,
                  map (\<lambda>j. GuardCall (name ?cur) j (entity_id ?cur) args False) [0..<k] @
                  GuardCall (name ?cur) k (entity_id ?cur) args True #
                  exit ?cur (Some p) @
                  enter (heap m ! get_target (transitions ?cur ! k))
                    (Some (get_target (transitions ?cur ! k))))"
    if "k < length (transitions ?cur)" "?P k" "\<forall>j<k. \<not> ?P j" for k
    using update_scan_match [OF wf0 cur0 c0, of k args] that cur(1)
    by (simp add: h0 update_cache_def enter_heap_cache_upd)
  have scan_none: "update ?m0 args =
             Inr (?m0, map (\<lambda>j. GuardCall (name ?cur) j (entity_id ?cur) args False)
                      [0..<length (transitions ?cur)])"
    if "\<forall>j<length (transitions ?cur). \<not> ?P j"
    using update_scan_no_match [OF wf0 cur0 c0, of args] that cur(1) by simp
  show thesis
  proof (cases "cache ?cur")
    case None
    then have same: "?m0 = m" by (simp add: reset_empty_cache)
    from first_match_cases [of "length (transitions ?cur)" ?P] show thesis
    proof
      assume a: "\<forall>j<length (transitions ?cur). \<not> ?P j"
      show thesis
        by (rule none [of "[]"]) (use None a scan_none [OF a] same in simp_all)
    next
      assume "\<exists>k<length (transitions ?cur). ?P k \<and> (\<forall>j<k. \<not> ?P j)"
      then obtain k where k: "k < length (transitions ?cur)" "?P k" "\<forall>j<k. \<not> ?P j" by blast
      show thesis
        by (rule match [of "[]" k])
           (use None k scan_match [OF k] same cur(3) [OF k(1)] in simp_all)
    qed
  next
    case (Some c)
    show thesis
    proof (cases "check_condition (transitions ?cur ! transition_idx c) (entity_id ?cur) args")
      case True
      from update_hit [OF assms Some True] Some True show thesis
        by (intro hit [of c]) simp_all
    next
      case False
      note miss = update_probe_miss [OF assms Some False]
      from first_match_cases [of "length (transitions ?cur)" ?P] show thesis
      proof
        assume a: "\<forall>j<length (transitions ?cur). \<not> ?P j"
        show thesis
          by (rule none [of "[GuardCall (name ?cur) (transition_idx c) (entity_id ?cur) args False]"])
             (use Some False a scan_none [OF a] miss in simp_all)
      next
        assume "\<exists>k<length (transitions ?cur). ?P k \<and> (\<forall>j<k. \<not> ?P j)"
        then obtain k where k: "k < length (transitions ?cur)" "?P k" "\<forall>j<k. \<not> ?P j" by blast
        show thesis
          by (rule match [of "[GuardCall (name ?cur) (transition_idx c) (entity_id ?cur) args False]" k])
             (use Some False k scan_match [OF k] miss cur(3) [OF k(1)] in simp_all)
      qed
    qed
  qed
qed

subsection \<open>Auxiliary facts\<close>

lemma update_empty_cache_is_scan:
  assumes "p < length (heap m)" and "current_state m = Some p" and "cache (heap m ! p) = None"
  shows "update m args = update_loop m p (heap m ! p) args 0"
proof -
  from assms(3) have "try_cached_transition (heap m ! p) (entity_id (heap m ! p)) args =
      Inr (False, heap m ! p, [])"
    by (simp add: try_cached_transition_def reset_empty_cache)
  with assms(1,2) show ?thesis
    by (simp add: update_def deref_def split: sum.splits)
qed

lemma guard_not_in_hooks:
  "GuardCall n i eid args b \<notin> set (enter s cur)"
  "GuardCall n i eid args b \<notin> set (exit s cur)"
  by (simp_all add: enter_def exit_def split: option.splits)

subsection \<open>The machines of the callers\<close>

lemma demo_machine_eval:
  "demo_machine =
     \<lparr>heap =
        [\<lparr>name = IDLE, entity_id = 1,
          transitions = [\<lparr>to = 1, condition = \<lambda>eid speed. speed > 1 / 10\<rparr>],
          on_enter = None, on_exit = None, cache = None\<rparr>,
         \<lparr>name = WALKING, entity_id = 1,
          transitions = [\<lparr>to = 2, condition = \<lambda>eid speed. speed > 5\<rparr>],
          on_enter = Some ''Entered WALKING'', on_exit = Some ''Exited WALKING state'',
          cache = None\<rparr>,
         \<lparr>name = RUNNING, entity_id = 1, transitions = [],
          on_enter = Some ''Entered RUNNING state'', on_exit = Some ''Exited RUNNING state'',
          cache = None\<rparr>],
      states = [IDLE \<mapsto> 0, WALKING \<mapsto> 1, RUNNING \<mapsto> 2],
      current_state = Some 0\<rparr>"
  by (simp add: demo_machine_def eval_defs numeral_2_eq_2)

lemma priority_machine_eval:
  "priority_machine =
     \<lparr>heap =
        [\<lparr>name = IDLE, entity_id = 1,
          transitions = [\<lparr>to = 1, condition = \<lambda>eid speed. speed > 5\<rparr>,
                         \<lparr>to = 2, condition = \<lambda>eid speed. speed > 1 / 10\<rparr>],
          on_enter = None, on_exit = None, cache = None\<rparr>,
         \<lparr>name = WALKING, entity_id = 1, transitions = [],
          on_enter = None, on_exit = None, cache = None\<rparr>,
         \<lparr>name = RUNNING, entity_id = 1, transitions = [],
          on_enter = None, on_exit = None, cache = None\<rparr>],
      states = [IDLE \<mapsto> 0, WALKING \<mapsto> 1, RUNNING \<mapsto> 2],
      current_state = Some 0\<rparr>"
  by (simp add: priority_machine_def eval_defs numeral_2_eq_2)

lemma loop_machine_eval:
  "loop_machine =
     \<lparr>heap =
        [\<lparr>name = IDLE, entity_id = 1,
          transitions = [\<lparr>to = 0, condition = \<lambda>eid speed. speed > 1 / 10\<rparr>],
          on_enter = Some ''Entered IDLE'', on_exit = Some ''Exited IDLE'',
          cache = Some \<lparr>target = 0, transition_idx = 0\<rparr>\<rparr>],
      states = [IDLE \<mapsto> 0],
      current_state = Some 0\<rparr>"
  by (simp add: loop_machine_def eval_defs)

lemma reachable_machines:
  "reachable demo_machine" "reachable priority_machine" "reachable loop_machine"
  by (simp_all add: demo_machine_def priority_machine_def loop_machine_def
      reachable_machine_after)

lemma walking_machine_eval:
  "walking_machine =
     \<lparr>heap =
        [\<lparr>name = IDLE, entity_id = 1,
          transitions = [\<lparr>to = 1, condition = \<lambda>eid speed. speed > 1 / 10\<rparr>],
          on_enter = None, on_exit = None,
          cache = Some \<lparr>target = 1, transition_idx = 0\<rparr>\<rparr>,
         \<lparr>name = WALKING, entity_id = 1,
          transitions = [\<lparr>to = 2, condition = \<lambda>eid speed. speed > 5\<rparr>],
          on_enter = Some ''Entered WALKING'', on_exit = Some ''Exited WALKING state'',
          cache = None\<rparr>,
         \<lparr>name = RUNNING, entity_id = 1, transitions = [],
          on_enter = Some ''Entered RUNNING state'', on_exit = Some ''Exited RUNNING state'',
          cache = None\<rparr>],
      states = [IDLE \<mapsto> 0, WALKING \<mapsto> 1, RUNNING \<mapsto> 2],
      current_state = Some 1\<rparr>"
  by (simp add: walking_machine_def eval_defs numeral_2_eq_2)

lemma running_machine_eval:
  "running_machine =
     \<lparr>heap =
        [\<lparr>name = IDLE, entity_id = 1,
          transitions = [\<lparr>to = 1, condition = \<lambda>eid speed. speed > 1 / 10\<rparr>],
          on_enter = None, on_exit = None,
          cache = Some \<lparr>target = 1, transition_idx = 0\<rparr>\<rparr>,
         \<lparr>name = WALKING, entity_id = 1,
          transitions = [\<lparr>to = 2, condition = \<lambda>eid speed. speed > 5\<rparr>],
          on_enter = Some ''Entered WALKING'', on_exit = Some ''Exited WALKING state'',
          cache = Some \<lparr>target = 2, transition_idx = 0\<rparr>\<rparr>,
         \<lparr>name = RUNNING, entity_id = 1, transitions = [],
          on_enter = Some ''Entered RUNNING state'', on_exit = Some ''Exited RUNNING state'',
          cache = None\<rparr>],
      states = [IDLE \<mapsto> 0, WALKING \<mapsto> 1, RUNNING \<mapsto> 2],
      current_state = Some 2\<rparr>"
  by (simp add: running_machine_def eval_defs numeral_2_eq_2)

lemma reachable_machines2:
  "reachable walking_machine" "reachable running_machine"
  by (simp_all add: walking_machine_def running_machine_def reachable_machine_after)

lemma walking_update_6:
  "update walking_machine 6 =
     Inr (running_machine,
          [GuardCall WALKING 0 1 6 True,
           CallbackCall ''Exited WALKING state'' 1 (Some 1),
           CallbackCall ''Entered RUNNING state'' 1 (Some 2)])"
  by (simp add: walking_machine_eval running_machine_eval eval_defs numeral_2_eq_2)

subsection \<open>The shape of a query\<close>

text \<open>
  The ways a \<open>can_transition_to\<close> call goes on a well-formed machine, as for \<open>update\<close>;
  the scan looks at the transitions to the queried state only.
\<close>

lemma can_transition_to_cases [consumes 3, case_names hit match none]:
  assumes "wf m" and "current_state m = Some p" and "states m n = Some tgt"
  obtains
    (hit) c where "cache (heap m ! p) = Some c"
      and "check_condition (transitions (heap m ! p) ! transition_idx c)
             (entity_id (heap m ! p)) args"
      and "transition_idx c < length (transitions (heap m ! p))"
      and "get_target (transitions (heap m ! p) ! transition_idx c) = target c"
      and "can_transition_to m n args =
             Inr (target c = tgt, m,
                  [GuardCall (name (heap m ! p)) (transition_idx c)
                     (entity_id (heap m ! p)) args True])"
  | (match) pre k where
      "cache (heap m ! p) = None \<and> pre = [] \<or>
       (\<exists>c. cache (heap m ! p) = Some c \<and>
            \<not> check_condition (transitions (heap m ! p) ! transition_idx c)
                (entity_id (heap m ! p)) args \<and>
            pre = [GuardCall (name (heap m ! p)) (transition_idx c)
                     (entity_id (heap m ! p)) args False])"
      and "k < length (transitions (heap m ! p))"
      and "get_target (transitions (heap m ! p) ! k) = tgt"
      and "check_condition (transitions (heap m ! p) ! k) (entity_id (heap m ! p)) args"
      and "\<forall>j<k. \<not> (get_target (transitions (heap m ! p) ! j) = tgt \<and>
                    check_condition (transitions (heap m ! p) ! j) (entity_id (heap m ! p)) args)"
      and "can_transition_to m n args =
             Inr (True, store m p (update_cache (heap m ! p) k tgt),
                  pre @
                  map (\<lambda>j. GuardCall (name (heap m ! p)) j (entity_id (heap m ! p)) args False)
                      (filter (\<lambda>j. get_target (transitions (heap m ! p) ! j) = tgt) [0..<k]) @
                  [GuardCall (name (heap m ! p)) k (entity_id (heap m ! p)) args True])"
  | (none) pre where
      "cache (heap m ! p) = None \<and> pre = [] \<or>
       (\<exists>c. cache (heap m ! p) = Some c \<and>
            \<not> check_condition (transitions (heap m ! p) ! transition_idx c)
                (entity_id (heap m ! p)) args \<and>
            pre = [GuardCall (name (heap m ! p)) (transition_idx c)
                     (entity_id (heap m ! p)) args False])"
      and "\<forall>j<length (transitions (heap m ! p)).
             \<not> (get_target (transitions (heap m ! p) ! j) = tgt \<and>
                check_condition (transitions (heap m ! p) ! j) (entity_id (heap m ! p)) args)"
      and "can_transition_to m n args =
             Inr (False, store m p ((heap m ! p)\<lparr>cache := None\<rparr>),
                  pre @
                  map (\<lambda>j. GuardCall (name (heap m ! p)) j (entity_id (heap m ! p)) args False)
                      (filter (\<lambda>j. get_target (transitions (heap m ! p) ! j) = tgt)
                         [0..<length (transitions (heap m ! p))]))"
proof -
  note cur = wf_currentD [OF assms(1,2)]
  let ?cur = "heap m ! p"
  let ?P = "\<lambda>j. get_target (transitions ?cur ! j) = tgt \<and>
                 check_condition (transitions ?cur ! j) (entity_id ?cur) args"
  let ?m0 = "store m p (?cur\<lparr>cache := None\<rparr>)"
  have wf0: "wf ?m0" using assms(1,2) by (rule wf_reset_current)
  have cur0: "current_state ?m0 = Some p" using assms(2) by simp
  have tgt0: "states ?m0 n = Some tgt" using assms(3) by simp
  have c0: "cache (heap ?m0 ! p) = None" using cur(1) by simp
  have scan_match: "can_transition_to ?m0 n args =
             Inr (True, store m p (update_cache ?cur k tgt),
                  map (\<lambda>j. GuardCall (name ?cur) j (entity_id ?cur) args False)
                      (filter (\<lambda>j. get_target (transitions ?cur ! j) = tgt) [0..<k]) @
                  [GuardCall (name ?cur) k (entity_id ?cur) args True])"
    if "k < length (transitions ?cur)" "?P k" "\<forall>j<k. \<not> ?P j" for k
    using can_transition_to_scan_match [OF wf0 cur0 tgt0 c0, of k args] that cur(1)
    by (simp add: update_cache_def)
  have scan_none: "can_transition_to ?m0 n args =
             Inr (False, ?m0,
                  map (\<lambda>j. GuardCall (name ?cur) j (entity_id ?cur) args False)
                      (filter (\<lambda>j. get_target (transitions ?cur ! j) = tgt)
                         [0..<length (transitions ?cur)]))"
    if "\<forall>j<length (transitions ?cur). \<not> ?P j"
    using can_transition_to_scan_no_match [OF wf0 cur0 tgt0 c0, of args] that cur(1) by simp
  show thesis
  proof (cases "cache ?cur")
    case None
    then have same: "?m0 = m" by (simp add: reset_empty_cache)
    from first_match_cases [of "length (transitions ?cur)" ?P] show thesis
    proof
      assume a: "\<forall>j<length (transitions ?cur). \<not> ?P j"
      show thesis
        by (rule none [of "[]"]) (use None a scan_none [OF a] same in simp_all)
    next
      assume "\<exists>k<length (transitions ?cur). ?P k \<and> (\<forall>j<k. \<not> ?P j)"
      then obtain k where k: "k < length (transitions ?cur)" "?P k" "\<forall>j<k. \<not> ?P j" by blast
      show thesis
        by (rule match [of "[]" k]) (use None k scan_match [OF k] same in simp_all)
    qed
  next
    case (Some c)
    show thesis
    proof (cases "check_condition (transitions ?cur ! transition_idx c) (entity_id ?cur) args")
      case True
      from cur(2) Some have "transition_idx c < length (transitions ?cur)"
        "get_target (transitions ?cur ! transition_idx c) = target c"
        by (simp_all add: cache_ok_def)
      with can_transition_to_hit [OF assms Some True] Some True show thesis
        by (intro hit [of c]) simp_all
    next
      case False
      note miss = can_transition_to_probe_miss [OF assms Some False]
      from first_match_cases [of "length (transitions ?cur)" ?P] show thesis
      proof
        assume a: "\<forall>j<length (transitions ?cur). \<not> ?P j"
        show thesis
          by (rule none [of "[GuardCall (name ?cur) (transition_idx c) (entity_id ?cur) args False]"])
             (use Some False a scan_none [OF a] miss in simp_all)
      next
        assume "\<exists>k<length (transitions ?cur). ?P k \<and> (\<forall>j<k. \<not> ?P j)"
        then obtain k where k: "k < length (transitions ?cur)" "?P k" "\<forall>j<k. \<not> ?P j" by blast
        show thesis
          by (rule match [of "[GuardCall (name ?cur) (transition_idx c) (entity_id ?cur) args False]" k])
             (use Some False k scan_match [OF k] miss in simp_all)
      qed
    qed
  qed
qed

lemma queried_machine_eval:
  "queried_machine =
     \<lparr>heap =
        [\<lparr>name = IDLE, entity_id = 1,
          transitions = [\<lparr>to = 1, condition = \<lambda>eid speed. speed > 5\<rparr>,
                         \<lparr>to = 2, condition = \<lambda>eid speed. speed > 1 / 10\<rparr>],
          on_enter = None, on_exit = None,
          cache = Some \<lparr>target = 2, transition_idx = 1\<rparr>\<rparr>,
         \<lparr>name = WALKING, entity_id = 1, transitions = [],
          on_enter = None, on_exit = None, cache = None\<rparr>,
         \<lparr>name = RUNNING, entity_id = 1, transitions = [],
          on_enter = None, on_exit = None, cache = None\<rparr>],
      states = [IDLE \<mapsto> 0, WALKING \<mapsto> 1, RUNNING \<mapsto> 2],
      current_state = Some 0\<rparr>"
  by (simp add: queried_machine_def eval_defs numeral_2_eq_2)

lemma reachable_queried_machine: "reachable queried_machine"
  by (simp add: queried_machine_def reachable_machine_after)

lemma priority_query:
  "can_transition_to priority_machine RUNNING 6 =
     Inr (True, queried_machine, [GuardCall IDLE 1 1 6 True])"
  by (simp add: priority_machine_eval queried_machine_eval eval_defs numeral_2_eq_2)

lemma first_match_unique:
  fixes P :: "nat \<Rightarrow> bool"
  assumes "P k" and "\<forall>j<k. \<not> P j" and "P k'" and "\<forall>j<k'. \<not> P j"
  shows "k = k'"
  using assms by (meson linorder_neqE_nat)

lemma probe_events_unique:
  assumes "cache s = None \<and> pre = [] \<or>
       (\<exists>c. cache s = Some c \<and> \<not> check_condition (transitions s ! transition_idx c) eid args \<and>
            pre = [GuardCall n (transition_idx c) eid args False])"
    and "cache s = None \<and> pre' = [] \<or>
       (\<exists>c. cache s = Some c \<and> \<not> check_condition (transitions s ! transition_idx c) eid args \<and>
            pre' = [GuardCall n (transition_idx c) eid args False])"
  shows "pre' = pre" and "guard_calls pre = pre" and "callback_calls pre = []"
    and "\<not> list_ex guard_true pre"
  using assms by auto

lemma scanned_machine_eval:
  "scanned_machine =
     \<lparr>heap =
        [\<lparr>name = IDLE, entity_id = 1,
          transitions = [\<lparr>to = 1, condition = \<lambda>eid speed. speed > 5\<rparr>,
                         \<lparr>to = 2, condition = \<lambda>eid speed. speed > 1 / 10\<rparr>],
          on_enter = None, on_exit = None,
          cache = Some \<lparr>target = 1, transition_idx = 0\<rparr>\<rparr>,
         \<lparr>name = WALKING, entity_id = 1, transitions = [],
          on_enter = None, on_exit = None, cache = None\<rparr>,
         \<lparr>name = RUNNING, entity_id = 1, transitions = [],
          on_enter = None, on_exit = None, cache = None\<rparr>],
      states = [IDLE \<mapsto> 0, WALKING \<mapsto> 1, RUNNING \<mapsto> 2],
      current_state = Some 1\<rparr>"
  by (simp add: scanned_machine_def eval_defs numeral_2_eq_2)

subsection \<open>Update and query against the algorithm of the specification\<close>

lemma spec_scan_none:
  assumes "\<forall>j \<in> set js. \<not> check_condition (transitions s ! j) (entity_id s) args"
  shows "spec_scan s args js =
           (map (\<lambda>j. GuardCall (name s) j (entity_id s) args False) js, None)"
  using assms by (induction js) simp_all

lemma spec_scan_match:
  assumes "\<forall>j \<in> set xs. \<not> check_condition (transitions s ! j) (entity_id s) args"
    and "check_condition (transitions s ! k) (entity_id s) args"
  shows "spec_scan s args (xs @ k # ys) =
           (map (\<lambda>j. GuardCall (name s) j (entity_id s) args False) xs @
            [GuardCall (name s) k (entity_id s) args True],
            Some \<lparr>target = get_target (transitions s ! k), transition_idx = k\<rparr>)"
  using assms by (induction xs) simp_all

lemma spec_scan_filter:
  assumes "\<forall>i b. GuardCall (name s) i (entity_id s) args b \<in> set (fst (spec_scan s args js))
             \<longrightarrow> Q i"
  shows "spec_scan s args (filter Q js) = spec_scan s args js"
  using assms
proof (induction js)
  case Nil
  then show ?case by simp
next
  case (Cons j js)
  show ?case
  proof (cases "check_condition (transitions s ! j) (entity_id s) args")
    case True
    then have "GuardCall (name s) j (entity_id s) args True
                 \<in> set (fst (spec_scan s args (j # js)))"
      by simp
    with Cons.prems have "Q j" by blast
    with True show ?thesis by simp
  next
    case False
    have "GuardCall (name s) j (entity_id s) args False \<in> set (fst (spec_scan s args (j # js)))"
      using False by (simp add: case_prod_unfold)
    with Cons.prems have q: "Q j" by blast
    have "\<forall>i b. GuardCall (name s) i (entity_id s) args b \<in> set (fst (spec_scan s args js))
             \<longrightarrow> Q i"
    proof (intro allI impI)
      fix i b
      assume "GuardCall (name s) i (entity_id s) args b \<in> set (fst (spec_scan s args js))"
      then have "GuardCall (name s) i (entity_id s) args b
                   \<in> set (fst (spec_scan s args (j # js)))"
        using False by (simp add: case_prod_unfold)
      with Cons.prems show "Q i" by blast
    qed
    from Cons.IH [OF this] q False show ?thesis by (simp add: case_prod_unfold)
  qed
qed

lemma upt_split_at:
  assumes "k < n"
  shows "[0..<n] = [0..<k] @ k # [Suc k..<n]"
proof -
  from assms have "[0..<n] = [0..<k] @ [k..<n]"
    using upt_add_eq_append [of 0 k "n - k"] by simp
  with assms show ?thesis by (simp add: upt_conv_Cons)
qed

lemma own_cache: "s\<lparr>cache := cache s\<rparr> = s"
  by simp

lemma spec_probe_then_scan_miss:
  assumes "cache s = None \<and> pre = [] \<or>
       (\<exists>c. cache s = Some c \<and>
            \<not> check_condition (transitions s ! transition_idx c) (entity_id s) args \<and>
            pre = [GuardCall (name s) (transition_idx c) (entity_id s) args False])"
  shows "spec_probe_then_scan s args js =
           (pre @ fst (spec_scan s args js), snd (spec_scan s args js))"
  using assms by (auto simp: spec_probe_then_scan_def case_prod_unfold)

lemma update_refines_spec:
  assumes "wf m" and "current_state m = Some p" and "update m args = Inr (m1, evs)"
  shows "(guard_calls evs, cache (heap m1 ! p)) =
           spec_probe_then_scan (heap m ! p) args [0..<length (transitions (heap m ! p))]"
    and "heap m1 = (heap m)[p := (heap m ! p)\<lparr>cache := cache (heap m1 ! p)\<rparr>]"
proof -
  note cur = wf_currentD [OF assms(1,2)]
  let ?cur = "heap m ! p"
  let ?n = "length (transitions ?cur)"
  let ?G = "\<lambda>j b. GuardCall (name ?cur) j (entity_id ?cur) args b"
  have "(guard_calls evs, cache (heap m1 ! p)) = spec_probe_then_scan ?cur args [0..<?n] \<and>
        heap m1 = (heap m)[p := ?cur\<lparr>cache := cache (heap m1 ! p)\<rparr>]"
    using assms(1,2)
  proof (cases rule: update_cases [where args = args])
    case (hit c)
    from hit(6) assms(3) have m1: "m1 = m\<lparr>current_state := Some (target c)\<rparr>"
      and evs: "evs = ?G (transition_idx c) True #
                 exit ?cur (Some p) @ enter (heap m ! target c) (Some (target c))"
      by simp_all
    have g: "guard_calls evs = [?G (transition_idx c) True]" by (simp add: evs)
    have c1: "cache (heap m1 ! p) = Some c" using hit(1) by (simp add: m1)
    have sp: "spec_probe_then_scan ?cur args [0..<?n] = ([?G (transition_idx c) True], Some c)"
      using hit(1,2) by (simp add: spec_probe_then_scan_def)
    have "?cur\<lparr>cache := Some c\<rparr> = ?cur" using hit(1) own_cache [of ?cur] by simp
    then have h: "heap m1 = (heap m)[p := ?cur\<lparr>cache := Some c\<rparr>]" by (simp add: m1)
    from g c1 sp h show ?thesis by simp
  next
    case (match pre k)
    let ?q = "get_target (transitions ?cur ! k)"
    from match(6) assms(3)
    have m1: "m1 = (store m p (update_cache ?cur k ?q))\<lparr>current_state := Some ?q\<rparr>"
      and evs: "evs = pre @ map (\<lambda>j. ?G j False) [0..<k] @ ?G k True #
                 exit ?cur (Some p) @ enter (heap m ! ?q) (Some ?q)"
      by simp_all
    from match(1) have pre: "guard_calls pre = pre" by auto
    have g: "guard_calls evs = pre @ map (\<lambda>j. ?G j False) [0..<k] @ [?G k True]"
      by (simp add: evs pre)
    have c1: "cache (heap m1 ! p) = Some \<lparr>target = ?q, transition_idx = k\<rparr>"
      using cur(1) by (simp add: m1 update_cache_def)
    have "\<forall>j \<in> set [0..<k]. \<not> check_condition (transitions ?cur ! j) (entity_id ?cur) args"
      using match(4) by simp
    from spec_scan_match [OF this match(3), of "[Suc k..<?n]"] upt_split_at [OF match(2)]
    have sc: "spec_scan ?cur args [0..<?n] =
                (map (\<lambda>j. ?G j False) [0..<k] @ [?G k True],
                 Some \<lparr>target = ?q, transition_idx = k\<rparr>)"
      by simp
    have sp: "spec_probe_then_scan ?cur args [0..<?n] =
                (pre @ map (\<lambda>j. ?G j False) [0..<k] @ [?G k True],
                 Some \<lparr>target = ?q, transition_idx = k\<rparr>)"
      by (simp only: spec_probe_then_scan_miss [OF match(1)] sc fst_conv snd_conv)
    have h: "heap m1 = (heap m)[p := ?cur\<lparr>cache := Some \<lparr>target = ?q, transition_idx = k\<rparr>\<rparr>]"
      by (simp add: m1 update_cache_def)
    from g c1 sp h show ?thesis by simp
  next
    case (none pre)
    from none(3) assms(3)
    have m1: "m1 = store m p (?cur\<lparr>cache := None\<rparr>)"
      and evs: "evs = pre @ map (\<lambda>j. ?G j False) [0..<?n]"
      by simp_all
    from none(1) have pre: "guard_calls pre = pre" by auto
    have g: "guard_calls evs = pre @ map (\<lambda>j. ?G j False) [0..<?n]"
      by (simp add: evs pre)
    have c1: "cache (heap m1 ! p) = None" using cur(1) by (simp add: m1)
    have "\<forall>j \<in> set [0..<?n]. \<not> check_condition (transitions ?cur ! j) (entity_id ?cur) args"
      using none(2) by simp
    from spec_scan_none [OF this]
    have sc: "spec_scan ?cur args [0..<?n] = (map (\<lambda>j. ?G j False) [0..<?n], None)" .
    have sp: "spec_probe_then_scan ?cur args [0..<?n] =
                (pre @ map (\<lambda>j. ?G j False) [0..<?n], None)"
      by (simp only: spec_probe_then_scan_miss [OF none(1)] sc fst_conv snd_conv)
    have h: "heap m1 = (heap m)[p := ?cur\<lparr>cache := None\<rparr>]" by (simp add: m1)
    from g c1 sp h show ?thesis by simp
  qed
  then show "(guard_calls evs, cache (heap m1 ! p)) = spec_probe_then_scan ?cur args [0..<?n]"
    and "heap m1 = (heap m)[p := ?cur\<lparr>cache := cache (heap m1 ! p)\<rparr>]"
    by simp_all
qed

lemma can_transition_to_refines_spec:
  assumes "wf m" and "current_state m = Some p" and "states m n = Some tgt"
    and "can_transition_to m n args = Inr (b, m2, evc)"
  shows "(evc, cache (heap m2 ! p)) =
           spec_probe_then_scan (heap m ! p) args
             (filter (\<lambda>j. get_target (transitions (heap m ! p) ! j) = tgt)
                [0..<length (transitions (heap m ! p))])"
    and "m2 = store m p ((heap m ! p)\<lparr>cache := cache (heap m2 ! p)\<rparr>)"
    and "b = (case cache (heap m2 ! p) of None \<Rightarrow> False | Some c \<Rightarrow> target c = tgt)"
proof -
  note cur = wf_currentD [OF assms(1,2)]
  let ?cur = "heap m ! p"
  let ?n = "length (transitions ?cur)"
  let ?G = "\<lambda>j b. GuardCall (name ?cur) j (entity_id ?cur) args b"
  let ?Q = "\<lambda>j. get_target (transitions ?cur ! j) = tgt"
  have "(evc, cache (heap m2 ! p)) = spec_probe_then_scan ?cur args (filter ?Q [0..<?n]) \<and>
        m2 = store m p (?cur\<lparr>cache := cache (heap m2 ! p)\<rparr>) \<and>
        b = (case cache (heap m2 ! p) of None \<Rightarrow> False | Some c \<Rightarrow> target c = tgt)"
    using assms(1,2,3)
  proof (cases rule: can_transition_to_cases [where args = args])
    case (hit c)
    from hit(5) assms(4) have b: "b = (target c = tgt)" and m2: "m2 = m"
      and evc: "evc = [?G (transition_idx c) True]"
      by simp_all
    have c2: "cache (heap m2 ! p) = Some c" using hit(1) by (simp add: m2)
    have sp: "spec_probe_then_scan ?cur args (filter ?Q [0..<?n]) =
                ([?G (transition_idx c) True], Some c)"
      using hit(1,2) by (simp add: spec_probe_then_scan_def)
    have "?cur\<lparr>cache := Some c\<rparr> = ?cur" using hit(1) own_cache [of ?cur] by simp
    then have h: "m2 = store m p (?cur\<lparr>cache := Some c\<rparr>)" by (simp add: m2)
    from b evc c2 sp h show ?thesis by simp
  next
    case (match pre k)
    from match(6) assms(4) have b: "b" and m2: "m2 = store m p (update_cache ?cur k tgt)"
      and evc: "evc = pre @ map (\<lambda>j. ?G j False) (filter ?Q [0..<k]) @ [?G k True]"
      by simp_all
    have c2: "cache (heap m2 ! p) = Some \<lparr>target = tgt, transition_idx = k\<rparr>"
      using cur(1) by (simp add: m2 update_cache_def)
    have nf: "\<forall>j \<in> set (filter ?Q [0..<k]).
                \<not> check_condition (transitions ?cur ! j) (entity_id ?cur) args"
      using match(5) by simp
    have fl: "filter ?Q [0..<?n] = filter ?Q [0..<k] @ k # filter ?Q [Suc k..<?n]"
      using match(3) by (simp add: upt_split_at [OF match(2)])
    from spec_scan_match [OF nf match(4), of "filter ?Q [Suc k..<?n]"] match(3)
    have sc: "spec_scan ?cur args (filter ?Q [0..<?n]) =
                (map (\<lambda>j. ?G j False) (filter ?Q [0..<k]) @ [?G k True],
                 Some \<lparr>target = tgt, transition_idx = k\<rparr>)"
      by (simp only: fl)
    have sp: "spec_probe_then_scan ?cur args (filter ?Q [0..<?n]) =
                (pre @ map (\<lambda>j. ?G j False) (filter ?Q [0..<k]) @ [?G k True],
                 Some \<lparr>target = tgt, transition_idx = k\<rparr>)"
      by (simp only: spec_probe_then_scan_miss [OF match(1)] sc fst_conv snd_conv)
    have h: "m2 = store m p (?cur\<lparr>cache := Some \<lparr>target = tgt, transition_idx = k\<rparr>\<rparr>)"
      by (simp add: m2 update_cache_def)
    from b evc c2 sp h show ?thesis by simp
  next
    case (none pre)
    from none(3) assms(4) have b: "\<not> b" and m2: "m2 = store m p (?cur\<lparr>cache := None\<rparr>)"
      and evc: "evc = pre @ map (\<lambda>j. ?G j False) (filter ?Q [0..<?n])"
      by simp_all
    have c2: "cache (heap m2 ! p) = None" using cur(1) by (simp add: m2)
    have "\<forall>j \<in> set (filter ?Q [0..<?n]).
            \<not> check_condition (transitions ?cur ! j) (entity_id ?cur) args"
      using none(2) by simp
    from spec_scan_none [OF this]
    have sc: "spec_scan ?cur args (filter ?Q [0..<?n]) =
                (map (\<lambda>j. ?G j False) (filter ?Q [0..<?n]), None)" .
    have sp: "spec_probe_then_scan ?cur args (filter ?Q [0..<?n]) =
                (pre @ map (\<lambda>j. ?G j False) (filter ?Q [0..<?n]), None)"
      by (simp only: spec_probe_then_scan_miss [OF none(1)] sc fst_conv snd_conv)
    from b evc c2 sp m2 show ?thesis by simp
  qed
  then show "(evc, cache (heap m2 ! p)) = spec_probe_then_scan ?cur args (filter ?Q [0..<?n])"
    and "m2 = store m p (?cur\<lparr>cache := cache (heap m2 ! p)\<rparr>)"
    and "b = (case cache (heap m2 ! p) of None \<Rightarrow> False | Some c \<Rightarrow> target c = tgt)"
    by simp_all
qed

lemma update_returns:
  assumes "wf m" and "current_state m = Some p"
  shows "\<exists>m1 evs. update m args = Inr (m1, evs)"
  using assms by (cases rule: update_cases [where args = args]) blast+

lemma can_transition_to_returns:
  assumes "wf m" and "current_state m = Some p" and "states m n = Some tgt"
  shows "\<exists>b m2 evc. can_transition_to m n args = Inr (b, m2, evc)"
  using assms by (cases rule: can_transition_to_cases [where args = args]) blast+

lemma spec_probe_then_scan_agree:
  assumes "(\<exists>c. cache s = Some c \<and>
                check_condition (transitions s ! transition_idx c) (entity_id s) args) \<or>
           (\<forall>i b. GuardCall (name s) i (entity_id s) args b \<in> set (fst (spec_scan s args js))
              \<longrightarrow> Q i)"
  shows "spec_probe_then_scan s args (filter Q js) = spec_probe_then_scan s args js"
  using assms
proof
  assume "\<exists>c. cache s = Some c \<and>
                check_condition (transitions s ! transition_idx c) (entity_id s) args"
  then show ?thesis by (auto simp: spec_probe_then_scan_def)
next
  assume "\<forall>i b. GuardCall (name s) i (entity_id s) args b \<in> set (fst (spec_scan s args js))
              \<longrightarrow> Q i"
  from spec_scan_filter [OF this] show ?thesis
    by (simp add: spec_probe_then_scan_def split: option.splits)
qed

section \<open>The properties\<close>

subsection \<open>First-match priority\<close>

text \<open>
  C1, as the code has it. Let \<open>k\<close> be the transition of the current state added first
  among those whose guard holds for the arguments. On a reachable machine \<open>update\<close>
  returns and takes transition \<open>k\<close> whenever the call reaches the full scan, that is when
  the cache of the current state is empty or the cached guard does not hold; when the
  cached guard holds, it takes the cached transition instead, whichever transitions were
  added before it.
\<close>

theorem update_first_match:
  assumes "reachable m" and "current_state m = Some p"
    and "k < length (transitions (heap m ! p))"
    and "check_condition (transitions (heap m ! p) ! k) (entity_id (heap m ! p)) args"
    and "\<forall>j<k. \<not> check_condition (transitions (heap m ! p) ! j) (entity_id (heap m ! p)) args"
  shows "\<exists>m1 evs. update m args = Inr (m1, evs) \<and>
           current_state m1 =
             Some (case cache (heap m ! p) of
                     None \<Rightarrow> get_target (transitions (heap m ! p) ! k)
                   | Some c \<Rightarrow>
                       if check_condition (transitions (heap m ! p) ! transition_idx c)
                            (entity_id (heap m ! p)) args
                       then target c
                       else get_target (transitions (heap m ! p) ! k))"
proof -
  note wf = reachable_wf [OF assms(1)]
  from wf assms(2) show ?thesis
  proof (cases rule: update_cases [where args = args])
    case (hit c)
    then show ?thesis by simp
  next
    case (match pre k')
    from first_match_unique
      [of "\<lambda>j. check_condition (transitions (heap m ! p) ! j) (entity_id (heap m ! p)) args" k k']
      assms(4,5) match(3,4)
    have "k = k'" by simp
    with match(1,6) show ?thesis by auto
  next
    case (none pre)
    with assms(3,4) show ?thesis by simp
  qed
qed

text \<open>
  Where first-match priority as such fails: \<open>IDLE\<close> has its transition to \<open>WALKING\<close> added
  first and its transition to \<open>RUNNING\<close> second, and both guards hold at speed 6. After
  \<open>can_transition_to\<close> for \<open>RUNNING\<close> has cached the second transition, \<open>update\<close> calls the
  second guard only and makes \<open>RUNNING\<close> current.
\<close>

theorem update_first_match_counterexample:
  "get_current_state queried_machine = Inr IDLE \<and>
   map get_target (transitions (heap queried_machine ! 0)) = [1, 2] \<and>
   check_condition (transitions (heap queried_machine ! 0) ! 0)
     (entity_id (heap queried_machine ! 0)) 6 \<and>
   check_condition (transitions (heap queried_machine ! 0) ! 1)
     (entity_id (heap queried_machine ! 0)) 6 \<and>
   can_transition_to priority_machine RUNNING 6 =
     Inr (True, queried_machine, [GuardCall IDLE 1 1 6 True]) \<and>
   update queried_machine 6 =
     Inr (queried_machine\<lparr>current_state := Some 2\<rparr>, [GuardCall IDLE 1 1 6 True]) \<and>
   get_current_state (queried_machine\<lparr>current_state := Some 2\<rparr>) = Inr RUNNING"
  by (simp add: priority_machine_eval queried_machine_eval eval_defs numeral_2_eq_2)

text \<open>
  The same two transitions at speed 1, where only the second guard holds and the cache is
  empty: the scan takes the second transition. And at speed 6 on the machine the query
  left: the cached guard holds and the cached transition is taken.
\<close>

theorem update_first_match_witness:
  "reachable priority_machine \<and> current_state priority_machine = Some 0 \<and>
   1 < length (transitions (heap priority_machine ! 0)) \<and>
   \<not> check_condition (transitions (heap priority_machine ! 0) ! 0)
       (entity_id (heap priority_machine ! 0)) 1 \<and>
   check_condition (transitions (heap priority_machine ! 0) ! 1)
     (entity_id (heap priority_machine ! 0)) 1 \<and>
   cache (heap priority_machine ! 0) = None \<and>
   get_target (transitions (heap priority_machine ! 0) ! 1) = 2 \<and>
   (\<exists>m1 evs. update priority_machine 1 = Inr (m1, evs) \<and> current_state m1 = Some 2) \<and>
   reachable queried_machine \<and> current_state queried_machine = Some 0 \<and>
   check_condition (transitions (heap queried_machine ! 0) ! 0)
     (entity_id (heap queried_machine ! 0)) 6 \<and>
   cache (heap queried_machine ! 0) = Some \<lparr>target = 2, transition_idx = 1\<rparr> \<and>
   check_condition (transitions (heap queried_machine ! 0) ! 1)
     (entity_id (heap queried_machine ! 0)) 6 \<and>
   (\<exists>m1 evs. update queried_machine 6 = Inr (m1, evs) \<and> current_state m1 = Some 2)"
proof -
  have r: "reachable priority_machine" by (rule reachable_machines)
  have c: "current_state priority_machine = Some 0"
    and l: "1 < length (transitions (heap priority_machine ! 0))"
    and f: "\<not> check_condition (transitions (heap priority_machine ! 0) ! 0)
              (entity_id (heap priority_machine ! 0)) 1"
    and t: "check_condition (transitions (heap priority_machine ! 0) ! 1)
              (entity_id (heap priority_machine ! 0)) 1"
    and e: "cache (heap priority_machine ! 0) = None"
    and g: "get_target (transitions (heap priority_machine ! 0) ! 1) = 2"
    by (simp_all add: priority_machine_eval check_condition_def get_target_def)
  from f have a: "\<forall>j<1. \<not> check_condition (transitions (heap priority_machine ! 0) ! j)
              (entity_id (heap priority_machine ! 0)) 1"
    by simp
  from update_first_match [OF r c l t a] e g
  have one: "\<exists>m1 evs. update priority_machine 1 = Inr (m1, evs) \<and> current_state m1 = Some 2"
    by simp
  have r': "reachable queried_machine" by (rule reachable_queried_machine)
  have c': "current_state queried_machine = Some 0"
    and l': "0 < length (transitions (heap queried_machine ! 0))"
    and t': "check_condition (transitions (heap queried_machine ! 0) ! 0)
              (entity_id (heap queried_machine ! 0)) 6"
    and e': "cache (heap queried_machine ! 0) = Some \<lparr>target = 2, transition_idx = 1\<rparr>"
    and h': "check_condition (transitions (heap queried_machine ! 0) ! 1)
              (entity_id (heap queried_machine ! 0)) 6"
    by (simp_all add: queried_machine_eval check_condition_def)
  have a': "\<forall>j<0. \<not> check_condition (transitions (heap queried_machine ! 0) ! j)
              (entity_id (heap queried_machine ! 0)) 6"
    by simp
  from update_first_match [OF r' c' l' t' a'] e' h'
  have two: "\<exists>m1 evs. update queried_machine 6 = Inr (m1, evs) \<and> current_state m1 = Some 2"
    by simp
  from r c l f t e g one r' c' t' e' h' two show ?thesis by simp
qed

subsection \<open>The cache after a full scan\<close>


subsection \<open>The query against update\<close>

text \<open>
  C3, as the code has it. On a reachable machine with a current state, \<open>update\<close> and
  \<open>can_transition_to\<close> for a registered name both return, and both run the algorithm the
  specification words for \<open>update\<close> (the same cache probe, then the same scan), but not
  over the same transitions: \<open>update\<close> scans all transitions of the current state,
  \<open>can_transition_to\<close> only those whose target is the queried state, in insertion order
  and under their own indices; the guard of a transition with another target is not
  called. In both, the cache slot left behind is the transition discovered, and nothing
  else of the store changes. The query returns true exactly when it discovered a
  transition and the target of that transition is the queried state. So on a cache hit,
  whatever state is queried, and on a scan in which every transition whose guard \<open>update\<close>
  calls has the queried state as its target, the query calls the same guards in the same
  order with the same results and leaves the same store as \<open>update\<close>.
\<close>

theorem can_transition_to_like_update:
  assumes "reachable m" and "current_state m = Some p" and "states m n = Some tgt"
  shows "\<exists>m1 evs b m2 evc.
           update m args = Inr (m1, evs) \<and>
           can_transition_to m n args = Inr (b, m2, evc) \<and>
           (guard_calls evs, cache (heap m1 ! p)) =
             spec_probe_then_scan (heap m ! p) args [0..<length (transitions (heap m ! p))] \<and>
           (evc, cache (heap m2 ! p)) =
             spec_probe_then_scan (heap m ! p) args
               (filter (\<lambda>j. get_target (transitions (heap m ! p) ! j) = tgt)
                  [0..<length (transitions (heap m ! p))]) \<and>
           heap m1 = (heap m)[p := (heap m ! p)\<lparr>cache := cache (heap m1 ! p)\<rparr>] \<and>
           m2 = store m p ((heap m ! p)\<lparr>cache := cache (heap m2 ! p)\<rparr>) \<and>
           b = (case cache (heap m2 ! p) of None \<Rightarrow> False | Some c \<Rightarrow> target c = tgt) \<and>
           ((\<exists>c. cache (heap m ! p) = Some c \<and>
                 check_condition (transitions (heap m ! p) ! transition_idx c)
                   (entity_id (heap m ! p)) args) \<or>
            (\<forall>i r. GuardCall (name (heap m ! p)) i (entity_id (heap m ! p)) args r
                      \<in> set (fst (spec_scan (heap m ! p) args
                                    [0..<length (transitions (heap m ! p))]))
                    \<longrightarrow> get_target (transitions (heap m ! p) ! i) = tgt)
            \<longrightarrow> evc = guard_calls evs \<and> heap m2 = heap m1)"
proof -
  note wf = reachable_wf [OF assms(1)]
  let ?cur = "heap m ! p"
  let ?all = "[0..<length (transitions ?cur)]"
  let ?Q = "\<lambda>j. get_target (transitions ?cur ! j) = tgt"
  from update_returns [OF wf assms(2)]
  obtain m1 evs where u: "update m args = Inr (m1, evs)" by blast
  from can_transition_to_returns [OF wf assms(2,3)]
  obtain b m2 evc where q: "can_transition_to m n args = Inr (b, m2, evc)" by blast
  note us = update_refines_spec [OF wf assms(2) u]
  note qs = can_transition_to_refines_spec [OF wf assms(2,3) q]
  have agree: "evc = guard_calls evs \<and> heap m2 = heap m1"
    if "(\<exists>c. cache ?cur = Some c \<and>
              check_condition (transitions ?cur ! transition_idx c) (entity_id ?cur) args) \<or>
        (\<forall>i r. GuardCall (name ?cur) i (entity_id ?cur) args r
                  \<in> set (fst (spec_scan ?cur args ?all))
           \<longrightarrow> ?Q i)"
  proof -
    from spec_probe_then_scan_agree [of ?cur args ?all ?Q, OF that] us(1) qs(1)
    have "(evc, cache (heap m2 ! p)) = (guard_calls evs, cache (heap m1 ! p))" by simp
    then have e: "evc = guard_calls evs" and c: "cache (heap m2 ! p) = cache (heap m1 ! p)"
      by simp_all
    have "heap m2 = (heap m)[p := ?cur\<lparr>cache := cache (heap m2 ! p)\<rparr>]"
      by (subst qs(2)) simp
    also have "\<dots> = heap m1" unfolding c using us(2) by simp
    finally show ?thesis using e by simp
  qed
  from u q us qs(1) qs(2) qs(3) agree show ?thesis by blast
qed

text \<open>
  On the machine with the two transitions out of \<open>IDLE\<close>, at speed 6: the query for
  \<open>RUNNING\<close> calls guard 1 only and caches transition 1; \<open>update\<close> calls guard 0 only and
  caches transition 0.
\<close>

theorem can_transition_to_like_update_counterexample:
  "can_transition_to priority_machine RUNNING 6 =
     Inr (True, queried_machine, [GuardCall IDLE 1 1 6 True]) \<and>
   cache (heap queried_machine ! 0) = Some \<lparr>target = 2, transition_idx = 1\<rparr> \<and>
   update priority_machine 6 = Inr (scanned_machine, [GuardCall IDLE 0 1 6 True]) \<and>
   cache (heap scanned_machine ! 0) = Some \<lparr>target = 1, transition_idx = 0\<rparr>"
  by (simp add: priority_machine_eval queried_machine_eval scanned_machine_eval eval_defs
      numeral_2_eq_2)

text \<open>
  On the machine the query for \<open>RUNNING\<close> left, whose cache holds the transition to
  \<open>RUNNING\<close>: the query for \<open>WALKING\<close> at speed 6 hits the cache as \<open>update\<close> does, calls the
  same guard, leaves the same store and returns false. And the demonstration program
  before its first \<open>update\<close>, where the only transition of \<open>IDLE\<close> leads to \<open>WALKING\<close>: the
  query for \<open>WALKING\<close> at speed 0.2 scans as \<open>update\<close> does and returns true.
\<close>

theorem can_transition_to_like_update_witness:
  "reachable queried_machine \<and> current_state queried_machine = Some 0 \<and>
   states queried_machine WALKING = Some 1 \<and>
   cache (heap queried_machine ! 0) = Some \<lparr>target = 2, transition_idx = 1\<rparr> \<and>
   check_condition (transitions (heap queried_machine ! 0) ! 1)
     (entity_id (heap queried_machine ! 0)) 6 \<and>
   (\<exists>m1 evs b m2 evc.
      update queried_machine 6 = Inr (m1, evs) \<and>
      can_transition_to queried_machine WALKING 6 = Inr (b, m2, evc) \<and>
      evc = guard_calls evs \<and> heap m2 = heap m1 \<and>
      evc = [GuardCall IDLE 1 1 6 True] \<and> \<not> b) \<and>
   reachable demo_machine \<and> current_state demo_machine = Some 0 \<and>
   states demo_machine WALKING = Some 1 \<and>
   cache (heap demo_machine ! 0) = None \<and>
   map get_target (transitions (heap demo_machine ! 0)) = [1] \<and>
   (\<exists>m1 evs b m2 evc.
      update demo_machine (2 / 10) = Inr (m1, evs) \<and>
      can_transition_to demo_machine WALKING (2 / 10) = Inr (b, m2, evc) \<and>
      evc = guard_calls evs \<and> heap m2 = heap m1 \<and>
      evc = [GuardCall IDLE 0 1 (2 / 10) True] \<and> b)"
proof -
  have r: "reachable queried_machine" by (rule reachable_queried_machine)
  have c: "current_state queried_machine = Some 0"
    and s: "states queried_machine WALKING = Some 1"
    and k: "cache (heap queried_machine ! 0) = Some \<lparr>target = 2, transition_idx = 1\<rparr>"
    and g: "check_condition (transitions (heap queried_machine ! 0) ! 1)
              (entity_id (heap queried_machine ! 0)) 6"
    by (simp_all add: queried_machine_eval check_condition_def)
  have sp: "spec_probe_then_scan (heap queried_machine ! 0) 6
              (filter (\<lambda>j. get_target (transitions (heap queried_machine ! 0) ! j) = 1)
                 [0..<length (transitions (heap queried_machine ! 0))]) =
            ([GuardCall IDLE 1 1 6 True], Some \<lparr>target = 2, transition_idx = 1\<rparr>)"
    by (simp add: queried_machine_eval spec_probe_then_scan_def check_condition_def)
  from k g have hit: "\<exists>c. cache (heap queried_machine ! 0) = Some c \<and>
      check_condition (transitions (heap queried_machine ! 0) ! transition_idx c)
        (entity_id (heap queried_machine ! 0)) 6"
    by simp
  from can_transition_to_like_update [OF r c s, of 6]
  obtain m1 evs b m2 evc where u: "update queried_machine 6 = Inr (m1, evs)"
    and q: "can_transition_to queried_machine WALKING 6 = Inr (b, m2, evc)"
    and qs: "(evc, cache (heap m2 ! 0)) =
             spec_probe_then_scan (heap queried_machine ! 0) 6
               (filter (\<lambda>j. get_target (transitions (heap queried_machine ! 0) ! j) = 1)
                  [0..<length (transitions (heap queried_machine ! 0))])"
    and b: "b = (case cache (heap m2 ! 0) of None \<Rightarrow> False | Some c \<Rightarrow> target c = 1)"
    and ag: "(\<exists>c. cache (heap queried_machine ! 0) = Some c \<and>
                 check_condition (transitions (heap queried_machine ! 0) ! transition_idx c)
                   (entity_id (heap queried_machine ! 0)) 6) \<or>
            (\<forall>i r. GuardCall (name (heap queried_machine ! 0)) i
                       (entity_id (heap queried_machine ! 0)) 6 r
                      \<in> set (fst (spec_scan (heap queried_machine ! 0) 6
                                    [0..<length (transitions (heap queried_machine ! 0))]))
                    \<longrightarrow> get_target (transitions (heap queried_machine ! 0) ! i) = 1)
            \<longrightarrow> evc = guard_calls evs \<and> heap m2 = heap m1"
    by blast
  from ag hit have same: "evc = guard_calls evs" "heap m2 = heap m1" by simp_all
  from qs sp have e: "evc = [GuardCall IDLE 1 1 6 True]"
    and c2: "cache (heap m2 ! 0) = Some \<lparr>target = 2, transition_idx = 1\<rparr>"
    by simp_all
  from b c2 have nb: "\<not> b" by simp
  from u q same e nb
  have one: "\<exists>m1 evs b m2 evc.
      update queried_machine 6 = Inr (m1, evs) \<and>
      can_transition_to queried_machine WALKING 6 = Inr (b, m2, evc) \<and>
      evc = guard_calls evs \<and> heap m2 = heap m1 \<and>
      evc = [GuardCall IDLE 1 1 6 True] \<and> \<not> b"
    by (intro exI [of _ m1] exI [of _ evs] exI [of _ b] exI [of _ m2] exI [of _ evc])
       (simp only: simp_thms)
  have r': "reachable demo_machine" by (rule reachable_machines)
  have c': "current_state demo_machine = Some 0"
    and s': "states demo_machine WALKING = Some 1"
    and k': "cache (heap demo_machine ! 0) = None"
    and t': "map get_target (transitions (heap demo_machine ! 0)) = [1]"
    by (simp_all add: demo_machine_eval get_target_def)
  have sp': "spec_probe_then_scan (heap demo_machine ! 0) (2 / 10)
              (filter (\<lambda>j. get_target (transitions (heap demo_machine ! 0) ! j) = 1)
                 [0..<length (transitions (heap demo_machine ! 0))]) =
            ([GuardCall IDLE 0 1 (2 / 10) True], Some \<lparr>target = 1, transition_idx = 0\<rparr>)"
    by (simp add: demo_machine_eval spec_probe_then_scan_def check_condition_def get_target_def)
  have all': "\<forall>i r. GuardCall (name (heap demo_machine ! 0)) i
                       (entity_id (heap demo_machine ! 0)) (2 / 10) r
                      \<in> set (fst (spec_scan (heap demo_machine ! 0) (2 / 10)
                                    [0..<length (transitions (heap demo_machine ! 0))]))
                    \<longrightarrow> get_target (transitions (heap demo_machine ! 0) ! i) = 1"
    by (simp add: demo_machine_eval check_condition_def get_target_def)
  from can_transition_to_like_update [OF r' c' s', of "2 / 10"]
  obtain m1' evs' b' m2' evc' where u': "update demo_machine (2 / 10) = Inr (m1', evs')"
    and q': "can_transition_to demo_machine WALKING (2 / 10) = Inr (b', m2', evc')"
    and qs': "(evc', cache (heap m2' ! 0)) =
             spec_probe_then_scan (heap demo_machine ! 0) (2 / 10)
               (filter (\<lambda>j. get_target (transitions (heap demo_machine ! 0) ! j) = 1)
                  [0..<length (transitions (heap demo_machine ! 0))])"
    and b': "b' = (case cache (heap m2' ! 0) of None \<Rightarrow> False | Some c \<Rightarrow> target c = 1)"
    and ag': "(\<exists>c. cache (heap demo_machine ! 0) = Some c \<and>
                 check_condition (transitions (heap demo_machine ! 0) ! transition_idx c)
                   (entity_id (heap demo_machine ! 0)) (2 / 10)) \<or>
            (\<forall>i r. GuardCall (name (heap demo_machine ! 0)) i
                       (entity_id (heap demo_machine ! 0)) (2 / 10) r
                      \<in> set (fst (spec_scan (heap demo_machine ! 0) (2 / 10)
                                    [0..<length (transitions (heap demo_machine ! 0))]))
                    \<longrightarrow> get_target (transitions (heap demo_machine ! 0) ! i) = 1)
            \<longrightarrow> evc' = guard_calls evs' \<and> heap m2' = heap m1'"
    by blast
  from ag' all' have same': "evc' = guard_calls evs'" "heap m2' = heap m1'" by blast+
  from qs' sp' have e': "evc' = [GuardCall IDLE 0 1 (2 / 10) True]"
    and c2': "cache (heap m2' ! 0) = Some \<lparr>target = 1, transition_idx = 0\<rparr>"
    by simp_all
  from b' c2' have yb: "b'" by simp
  from u' q' same' e' yb
  have two: "\<exists>m1 evs b m2 evc.
      update demo_machine (2 / 10) = Inr (m1, evs) \<and>
      can_transition_to demo_machine WALKING (2 / 10) = Inr (b, m2, evc) \<and>
      evc = guard_calls evs \<and> heap m2 = heap m1 \<and>
      evc = [GuardCall IDLE 0 1 (2 / 10) True] \<and> b"
    by (intro exI [of _ m1'] exI [of _ evs'] exI [of _ b'] exI [of _ m2'] exI [of _ evc'])
       (simp only: simp_thms)
  from r c s k g one r' c' s' k' t' two show ?thesis by (simp only: simp_thms)
qed

subsection \<open>The cache probe of update\<close>

text \<open>
  C4. On a reachable machine whose current state holds a cache entry: if the cached
  guard holds for the arguments, \<open>update\<close> calls that guard and no other, and makes the
  cached target current through \<open>handle_transition\<close> (exit hook of the old state, then
  enter hook of the target), leaving the store (and with it the cache) as it was; if it does
  not hold, \<open>update\<close> calls that guard, and what follows is the full scan (the loop, from
  index 0) on the machine whose current state has its cache cleared.
\<close>

theorem update_cache_probe:
  assumes "reachable m" and "current_state m = Some p" and "cache (heap m ! p) = Some c"
  shows "(check_condition (transitions (heap m ! p) ! transition_idx c)
            (entity_id (heap m ! p)) args \<longrightarrow>
          (\<exists>evs. update m args = Inr (m\<lparr>current_state := Some (target c)\<rparr>, evs) \<and>
                 guard_calls evs =
                   [GuardCall (name (heap m ! p)) (transition_idx c)
                      (entity_id (heap m ! p)) args True] \<and>
                 callback_calls evs =
                   exit (heap m ! p) (Some p) @ enter (heap m ! target c) (Some (target c)))) \<and>
         (\<not> check_condition (transitions (heap m ! p) ! transition_idx c)
              (entity_id (heap m ! p)) args \<longrightarrow>
          (\<exists>m1 evs.
             update m args =
               Inr (m1, GuardCall (name (heap m ! p)) (transition_idx c)
                          (entity_id (heap m ! p)) args False # evs) \<and>
             update_loop (store m p ((heap m ! p)\<lparr>cache := None\<rparr>)) p
               ((heap m ! p)\<lparr>cache := None\<rparr>) args 0 = Inr (m1, evs)))"
proof (intro conjI impI)
  note wf = reachable_wf [OF assms(1)]
  assume "check_condition (transitions (heap m ! p) ! transition_idx c)
            (entity_id (heap m ! p)) args"
  from update_hit(1) [OF wf assms(2,3) this]
  show "\<exists>evs. update m args = Inr (m\<lparr>current_state := Some (target c)\<rparr>, evs) \<and>
                 guard_calls evs =
                   [GuardCall (name (heap m ! p)) (transition_idx c)
                      (entity_id (heap m ! p)) args True] \<and>
                 callback_calls evs =
                   exit (heap m ! p) (Some p) @ enter (heap m ! target c) (Some (target c))"
    by simp
next
  note wf = reachable_wf [OF assms(1)]
  note cur = wf_currentD [OF wf assms(2)]
  let ?m0 = "store m p ((heap m ! p)\<lparr>cache := None\<rparr>)"
  assume miss: "\<not> check_condition (transitions (heap m ! p) ! transition_idx c)
            (entity_id (heap m ! p)) args"
  have wf0: "wf ?m0" using wf assms(2) by (rule wf_reset_current)
  have cur0: "current_state ?m0 = Some p" using assms(2) by simp
  have scan: "update ?m0 args = update_loop ?m0 p ((heap m ! p)\<lparr>cache := None\<rparr>) args 0"
    using update_empty_cache_is_scan [of p ?m0 args] cur(1) assms(2) by simp
  obtain m1 evs where u0: "update ?m0 args = Inr (m1, evs)"
    using wf0 cur0 by (cases rule: update_cases [where args = args]) simp_all
  with scan have ul: "update_loop ?m0 p ((heap m ! p)\<lparr>cache := None\<rparr>) args 0 = Inr (m1, evs)"
    by simp
  from update_probe_miss [OF wf assms(2,3) miss] u0
  have "update m args =
          Inr (m1, GuardCall (name (heap m ! p)) (transition_idx c)
                     (entity_id (heap m ! p)) args False # evs)"
    by simp
  with ul show "\<exists>m1 evs.
             update m args =
               Inr (m1, GuardCall (name (heap m ! p)) (transition_idx c)
                          (entity_id (heap m ! p)) args False # evs) \<and>
             update_loop (store m p ((heap m ! p)\<lparr>cache := None\<rparr>)) p
               ((heap m ! p)\<lparr>cache := None\<rparr>) args 0 = Inr (m1, evs)"
    by blast
qed

text \<open>
  The state with a transition to itself, its cache filled: at speed 1 the cached guard
  holds, at speed 0 it does not.
\<close>

theorem update_cache_probe_witness:
  "reachable loop_machine \<and> current_state loop_machine = Some 0 \<and>
   cache (heap loop_machine ! 0) = Some \<lparr>target = 0, transition_idx = 0\<rparr> \<and>
   check_condition (transitions (heap loop_machine ! 0) ! 0) (entity_id (heap loop_machine ! 0)) 1 \<and>
   (\<exists>evs. update loop_machine 1 = Inr (loop_machine, evs) \<and>
          guard_calls evs = [GuardCall IDLE 0 1 1 True] \<and>
          callback_calls evs =
            [CallbackCall ''Exited IDLE'' 1 (Some 0), CallbackCall ''Entered IDLE'' 1 (Some 0)]) \<and>
   \<not> check_condition (transitions (heap loop_machine ! 0) ! 0) (entity_id (heap loop_machine ! 0)) 0 \<and>
   (\<exists>m1 evs.
      update loop_machine 0 = Inr (m1, GuardCall IDLE 0 1 0 False # evs) \<and>
      update_loop (store loop_machine 0 ((heap loop_machine ! 0)\<lparr>cache := None\<rparr>)) 0
        ((heap loop_machine ! 0)\<lparr>cache := None\<rparr>) 0 0 = Inr (m1, evs))"
proof -
  have r: "reachable loop_machine" by (rule reachable_machines)
  have c: "current_state loop_machine = Some 0"
    and s: "cache (heap loop_machine ! 0) = Some \<lparr>target = 0, transition_idx = 0\<rparr>"
    and t: "check_condition (transitions (heap loop_machine ! 0) ! 0)
              (entity_id (heap loop_machine ! 0)) 1"
    and f: "\<not> check_condition (transitions (heap loop_machine ! 0) ! 0)
              (entity_id (heap loop_machine ! 0)) 0"
    and n: "name (heap loop_machine ! 0) = IDLE" "entity_id (heap loop_machine ! 0) = 1"
      "loop_machine\<lparr>current_state := Some 0\<rparr> = loop_machine"
      "exit (heap loop_machine ! 0) (Some 0) = [CallbackCall ''Exited IDLE'' 1 (Some 0)]"
      "enter (heap loop_machine ! 0) (Some 0) = [CallbackCall ''Entered IDLE'' 1 (Some 0)]"
    by (simp_all add: loop_machine_eval check_condition_def exit_def enter_def)
  from update_cache_probe [OF r c s, of 1] t n
  have hit: "\<exists>evs. update loop_machine 1 = Inr (loop_machine, evs) \<and>
          guard_calls evs = [GuardCall IDLE 0 1 1 True] \<and>
          callback_calls evs =
            [CallbackCall ''Exited IDLE'' 1 (Some 0), CallbackCall ''Entered IDLE'' 1 (Some 0)]"
    by simp
  from update_cache_probe [OF r c s, of 0] f n
  have miss: "\<exists>m1 evs.
      update loop_machine 0 = Inr (m1, GuardCall IDLE 0 1 0 False # evs) \<and>
      update_loop (store loop_machine 0 ((heap loop_machine ! 0)\<lparr>cache := None\<rparr>)) 0
        ((heap loop_machine ! 0)\<lparr>cache := None\<rparr>) 0 0 = Inr (m1, evs)"
    by simp
  from r c s t f hit miss show ?thesis by blast
qed

subsection \<open>Exit, then enter\<close>

text \<open>
  C5. Let \<open>update\<close> be called on a reachable machine with current state \<open>a\<close>, and let \<open>b\<close>
  be the current state after the call. The events of the call are first its guard calls,
  then its callback calls. If a guard returned true (a transition was performed), \<open>b\<close> is
  the target of the transition whose guard returned true, and the callback calls are
  exactly: the exit hook of \<open>a\<close>, if set, with the entity id of \<open>a\<close>, called while \<open>a\<close> is
  still current; then the enter hook of \<open>b\<close>, if set, with the entity id of \<open>b\<close>, called
  when \<open>b\<close> is already current. If no guard returned true there is no callback call and
  \<open>b = a\<close>.
\<close>

theorem update_exit_then_enter:
  assumes "reachable m" and "current_state m = Some a" and "update m args = Inr (m1, evs)"
  shows "\<exists>b. current_state m1 = Some b \<and> b < length (heap m) \<and>
           evs = guard_calls evs @ callback_calls evs \<and>
           (if list_ex guard_true evs then
              callback_calls evs =
                (case on_exit (heap m ! a) of
                   None \<Rightarrow> []
                 | Some f \<Rightarrow> [CallbackCall f (entity_id (heap m ! a)) (Some a)]) @
                (case on_enter (heap m ! b) of
                   None \<Rightarrow> []
                 | Some g \<Rightarrow> [CallbackCall g (entity_id (heap m ! b)) (Some b)]) \<and>
              (\<forall>i. GuardCall (name (heap m ! a)) i (entity_id (heap m ! a)) args True \<in> set evs
                 \<longrightarrow> b = get_target (transitions (heap m ! a) ! i))
            else callback_calls evs = [] \<and> b = a)"
proof -
  note wf = reachable_wf [OF assms(1)]
  note cur = wf_currentD [OF wf assms(2)]
  let ?goal = "\<lambda>b. current_state m1 = Some b \<and> b < length (heap m) \<and>
           evs = guard_calls evs @ callback_calls evs \<and>
           (if list_ex guard_true evs then
              callback_calls evs = exit (heap m ! a) (Some a) @ enter (heap m ! b) (Some b) \<and>
              (\<forall>i. GuardCall (name (heap m ! a)) i (entity_id (heap m ! a)) args True \<in> set evs
                 \<longrightarrow> b = get_target (transitions (heap m ! a) ! i))
            else callback_calls evs = [] \<and> b = a)"
  from wf assms(2) have "\<exists>b. ?goal b"
  proof (cases rule: update_cases [where args = args])
    case (hit c)
    from hit(6) assms(3) hit(4,5) have "?goal (target c)"
      by (auto simp: guard_not_in_hooks)
    then show ?thesis ..
  next
    case (match pre k)
    from match(1) have pre: "guard_calls pre = pre" "callback_calls pre = []"
      "\<not> list_ex guard_true pre"
      "\<And>i. GuardCall (name (heap m ! a)) i (entity_id (heap m ! a)) args True \<notin> set pre"
      by auto
    from match(6) assms(3) match(5) pre
    have "?goal (get_target (transitions (heap m ! a) ! k))"
      by (auto simp: guard_not_in_hooks)
    then show ?thesis ..
  next
    case (none pre)
    from none(1) have pre: "guard_calls pre = pre" "callback_calls pre = []"
      "\<not> list_ex guard_true pre"
      by auto
    from none(3) assms(2,3) cur(1) pre have "?goal a"
      by auto
    then show ?thesis ..
  qed
  then show ?thesis
    unfolding exit_def enter_def .
qed

text \<open>
  The demonstration program at its last \<open>update\<close>: exit hook of \<open>WALKING\<close>, then enter hook
  of \<open>RUNNING\<close>.
\<close>

theorem update_exit_then_enter_witness:
  "reachable walking_machine \<and> current_state walking_machine = Some 1 \<and>
   update walking_machine 6 =
     Inr (running_machine,
          [GuardCall WALKING 0 1 6 True,
           CallbackCall ''Exited WALKING state'' 1 (Some 1),
           CallbackCall ''Entered RUNNING state'' 1 (Some 2)]) \<and>
   current_state running_machine = Some 2 \<and>
   on_exit (heap walking_machine ! 1) = Some ''Exited WALKING state'' \<and>
   on_enter (heap walking_machine ! 2) = Some ''Entered RUNNING state'' \<and>
   callback_calls
     [GuardCall WALKING 0 1 6 True,
      CallbackCall ''Exited WALKING state'' 1 (Some 1),
      CallbackCall ''Entered RUNNING state'' 1 (Some 2)] =
     [CallbackCall ''Exited WALKING state'' (entity_id (heap walking_machine ! 1)) (Some 1),
      CallbackCall ''Entered RUNNING state'' (entity_id (heap walking_machine ! 2)) (Some 2)]"
proof -
  let ?evs = "[GuardCall WALKING 0 1 6 True,
      CallbackCall ''Exited WALKING state'' 1 (Some 1),
      CallbackCall ''Entered RUNNING state'' 1 (Some 2)]"
  have r: "reachable walking_machine" by (rule reachable_machines2)
  have c: "current_state walking_machine = Some 1"
    and x: "on_exit (heap walking_machine ! 1) = Some ''Exited WALKING state''"
    and e: "on_enter (heap walking_machine ! 2) = Some ''Entered RUNNING state''"
    by (simp_all add: walking_machine_eval)
  have c2: "current_state running_machine = Some 2"
    by (simp add: running_machine_eval)
  have g: "list_ex guard_true ?evs" by simp
  from update_exit_then_enter [OF r c walking_update_6] c2 g x e
  have "callback_calls ?evs =
     [CallbackCall ''Exited WALKING state'' (entity_id (heap walking_machine ! 1)) (Some 1),
      CallbackCall ''Entered RUNNING state'' (entity_id (heap walking_machine ! 2)) (Some 2)]"
    by simp
  with r c walking_update_6 c2 x e show ?thesis by simp
qed

subsection \<open>No match\<close>

text \<open>
  C6. On a reachable machine with a current state \<open>update\<close> returns; and if none of the
  guards it called returned true (which is the case when no guard of the current state
  holds for the arguments), the machine after the call is the machine before with the
  cache of the current state empty: the current state is the same, its cache is empty,
  and no callback was called.
\<close>

theorem update_no_match:
  assumes "reachable m" and "current_state m = Some p"
  shows "\<exists>m1 evs. update m args = Inr (m1, evs) \<and>
           ((\<forall>t \<in> set (transitions (heap m ! p)).
               \<not> check_condition t (entity_id (heap m ! p)) args)
              \<longrightarrow> \<not> list_ex guard_true evs) \<and>
           (\<not> list_ex guard_true evs \<longrightarrow>
              m1 = store m p ((heap m ! p)\<lparr>cache := None\<rparr>) \<and>
              current_state m1 = Some p \<and>
              cache (heap m1 ! p) = None \<and>
              callback_calls evs = [])"
proof -
  note wf = reachable_wf [OF assms(1)]
  note cur = wf_currentD [OF wf assms(2)]
  from wf assms(2) show ?thesis
  proof (cases rule: update_cases [where args = args])
    case (hit c)
    from hit(3) have "transitions (heap m ! p) ! transition_idx c \<in> set (transitions (heap m ! p))"
      by simp
    with hit(2,6) show ?thesis by auto
  next
    case (match pre k)
    from match(2) have "transitions (heap m ! p) ! k \<in> set (transitions (heap m ! p))"
      by simp
    with match(3,6) show ?thesis by auto
  next
    case (none pre)
    from none(1) have pre: "callback_calls pre = []" "\<not> list_ex guard_true pre"
      by auto
    from none(3) assms(2) cur(1) pre show ?thesis
      by simp
  qed
qed

text \<open>The state with a transition to itself, its cache filled, at speed 0.\<close>

theorem update_no_match_witness:
  "reachable loop_machine \<and> current_state loop_machine = Some 0 \<and>
   length (transitions (heap loop_machine ! 0)) = 1 \<and>
   \<not> check_condition (transitions (heap loop_machine ! 0) ! 0)
       (entity_id (heap loop_machine ! 0)) 0 \<and>
   cache (heap loop_machine ! 0) = Some \<lparr>target = 0, transition_idx = 0\<rparr> \<and>
   (\<exists>m1 evs. update loop_machine 0 = Inr (m1, evs) \<and>
      \<not> list_ex guard_true evs \<and>
      m1 = store loop_machine 0 ((heap loop_machine ! 0)\<lparr>cache := None\<rparr>) \<and>
      current_state m1 = Some 0 \<and> cache (heap m1 ! 0) = None \<and> callback_calls evs = [])"
proof -
  have r: "reachable loop_machine" by (rule reachable_machines)
  have c: "current_state loop_machine = Some 0"
    and l: "length (transitions (heap loop_machine ! 0)) = 1"
    and f: "\<not> check_condition (transitions (heap loop_machine ! 0) ! 0)
              (entity_id (heap loop_machine ! 0)) 0"
    and s: "cache (heap loop_machine ! 0) = Some \<lparr>target = 0, transition_idx = 0\<rparr>"
    and a: "\<forall>t \<in> set (transitions (heap loop_machine ! 0)).
              \<not> check_condition t (entity_id (heap loop_machine ! 0)) 0"
    by (simp_all add: loop_machine_eval check_condition_def)
  from update_no_match [OF r c, of 0] a
  have "\<exists>m1 evs. update loop_machine 0 = Inr (m1, evs) \<and>
      \<not> list_ex guard_true evs \<and>
      m1 = store loop_machine 0 ((heap loop_machine ! 0)\<lparr>cache := None\<rparr>) \<and>
      current_state m1 = Some 0 \<and> cache (heap m1 ! 0) = None \<and> callback_calls evs = []"
    by blast
  with r c l f s show ?thesis by blast
qed

subsection \<open>The query leaves the control state alone\<close>

text \<open>
  C7. On a reachable machine with a current state, \<open>can_transition_to\<close> for a registered
  name returns, calls no callback, and the machine it leaves differs from the machine
  before at most in the cache slot of the current state: the current pointer, and with
  it what \<open>get_current_state\<close> returns, is the same.
\<close>

theorem can_transition_to_frame:
  assumes "reachable m" and "current_state m = Some p" and "states m n = Some tgt"
  shows "\<exists>b m1 evs c.
           can_transition_to m n args = Inr (b, m1, evs) \<and>
           m1 = store m p ((heap m ! p)\<lparr>cache := c\<rparr>) \<and>
           current_state m1 = current_state m \<and>
           get_current_state m1 = get_current_state m \<and>
           callback_calls evs = []"
proof -
  note wf = reachable_wf [OF assms(1)]
  note cur = wf_currentD [OF wf assms(2)]
  have frame: "current_state (store m p ((heap m ! p)\<lparr>cache := c\<rparr>)) = current_state m \<and>
      get_current_state (store m p ((heap m ! p)\<lparr>cache := c\<rparr>)) = get_current_state m" for c
    using assms(2) cur(1) by (simp add: get_current_state_def deref_def)
  from wf assms(2,3) show ?thesis
  proof (cases rule: can_transition_to_cases [where args = args])
    case (hit c)
    have "m = store m p ((heap m ! p)\<lparr>cache := cache (heap m ! p)\<rparr>)" by simp
    with hit(5) frame [of "cache (heap m ! p)"] show ?thesis
      by (metis callback_calls_Guard callback_calls_Nil)
  next
    case (match pre k)
    from match(1) have pre: "callback_calls pre = []" by auto
    from match(6) frame [of "Some \<lparr>target = tgt, transition_idx = k\<rparr>"] pre show ?thesis
      by (simp add: update_cache_def) blast
  next
    case (none pre)
    from none(1) have pre: "callback_calls pre = []" by auto
    from none(3) frame [of None] pre show ?thesis
      by simp blast
  qed
qed

text \<open>The query for \<open>RUNNING\<close> at speed 1 on the machine with two transitions out of \<open>IDLE\<close>.\<close>

theorem can_transition_to_frame_witness:
  "reachable priority_machine \<and> current_state priority_machine = Some 0 \<and>
   states priority_machine RUNNING = Some 2 \<and>
   (\<exists>b m1 evs c.
      can_transition_to priority_machine RUNNING 1 = Inr (b, m1, evs) \<and>
      m1 = store priority_machine 0 ((heap priority_machine ! 0)\<lparr>cache := c\<rparr>) \<and>
      current_state m1 = current_state priority_machine \<and>
      get_current_state m1 = get_current_state priority_machine \<and>
      callback_calls evs = [])"
proof -
  have r: "reachable priority_machine" by (rule reachable_machines)
  have c: "current_state priority_machine = Some 0"
    and t: "states priority_machine RUNNING = Some 2"
    by (simp_all add: priority_machine_eval)
  from r c t can_transition_to_frame [OF r c t, of 1] show ?thesis by simp
qed

subsection \<open>Idempotent state creation\<close>

text \<open>
  C8. Calling \<open>add_state\<close> with a name that is already present returns the pointer of the
  existing state and leaves the whole machine (store, registry, current pointer) as it
  is, so that the state keeps the entity id it was created with; a second call with the
  same name returns what the first returned, whatever id it passes; and on the
  default-constructed machine the first call makes the new state the current state.
\<close>

theorem add_state_idempotent:
  "(states m n = Some p \<longrightarrow> add_state m n eid' = (p, m)) \<and>
   add_state (snd (add_state m n eid)) n eid' = add_state m n eid \<and>
   (states m n = None \<longrightarrow>
      deref (snd (add_state (snd (add_state m n eid)) n eid')) (fst (add_state m n eid))
        = Inr (new_State n eid)) \<and>
   current_state (snd (add_state StateMachine_init n eid))
     = Some (fst (add_state StateMachine_init n eid)) \<and>
   get_current_state (snd (add_state StateMachine_init n eid)) = Inr n"
proof -
  have a: "states m n = Some p \<Longrightarrow> add_state m n eid' = (p, m)"
    by (simp add: add_state_def)
  have b: "add_state (snd (add_state m n eid)) n eid' = add_state m n eid"
    by (cases "states m n") (simp_all add: add_state_def Let_def)
  have c: "states m n = None \<Longrightarrow>
      deref (snd (add_state (snd (add_state m n eid)) n eid')) (fst (add_state m n eid))
        = Inr (new_State n eid)"
    by (simp add: add_state_def Let_def deref_def)
  have d: "current_state (snd (add_state StateMachine_init n eid))
     = Some (fst (add_state StateMachine_init n eid))"
    by (simp add: add_state_def Let_def StateMachine_init_def)
  have e: "get_current_state (snd (add_state StateMachine_init n eid)) = Inr n"
    by (simp add: add_state_def Let_def StateMachine_init_def deref_def get_current_state_def
      new_State_def)
  from a b c d e show ?thesis by blast
qed

text \<open>
  \<open>WALKING\<close> added again to the machine of the demonstration program, with another id;
  and \<open>WALKING\<close> added twice, with two ids, to a machine that does not have it.
\<close>

theorem add_state_idempotent_witness:
  "states demo_machine WALKING = Some 1 \<and>
   add_state demo_machine WALKING 7 = (1, demo_machine) \<and>
   states loop_machine WALKING = None \<and>
   deref (snd (add_state (snd (add_state loop_machine WALKING 1)) WALKING 2))
      (fst (add_state loop_machine WALKING 1))
     = Inr (new_State WALKING 1)"
proof -
  have a: "states demo_machine WALKING = Some 1"
    by (simp add: demo_machine_eval)
  have b: "states loop_machine WALKING = None"
    by (simp add: loop_machine_eval)
  from add_state_idempotent [of demo_machine WALKING 1 7 7] a
  have c: "add_state demo_machine WALKING 7 = (1, demo_machine)" by blast
  from add_state_idempotent [of loop_machine WALKING 0 2 1] b
  have d: "deref (snd (add_state (snd (add_state loop_machine WALKING 1)) WALKING 2))
      (fst (add_state loop_machine WALKING 1))
     = Inr (new_State WALKING 1)" by blast
  from a b c d show ?thesis by blast
qed

subsection \<open>Cache consistency\<close>

text \<open>
  C9. In every reachable machine (the default-constructed machine is reachable, and every
  public member function leads from a reachable machine to a reachable one), every state
  of the registry, and every state of the store, has a consistent cache: if the cache slot
  is present, its index is a valid index into the transitions of that state and the
  target of the transition at that index is the cached target.
\<close>

theorem cache_consistency:
  assumes "reachable m"
  shows "(states m n = Some p \<longrightarrow> p < length (heap m)) \<and>
         (p < length (heap m) \<longrightarrow> cache (heap m ! p) = Some c \<longrightarrow>
            transition_idx c < length (transitions (heap m ! p)) \<and>
            get_target (transitions (heap m ! p) ! transition_idx c) = target c)"
proof -
  note wf = reachable_wf [OF assms]
  have ok: "cache_ok (heap m ! p)" if "p < length (heap m)"
  proof -
    from that have "heap m ! p \<in> set (heap m)" by simp
    with wf show ?thesis by (simp add: wf_def)
  qed
  from wf have reg: "states m n = Some p \<Longrightarrow> p < length (heap m)"
    by (simp add: wf_def)
  have "transition_idx c < length (transitions (heap m ! p)) \<and>
        get_target (transitions (heap m ! p) ! transition_idx c) = target c"
    if "p < length (heap m)" "cache (heap m ! p) = Some c"
    using ok [OF that(1)] that(2) by (simp add: cache_ok_def)
  with reg show ?thesis by blast
qed

text \<open>The cache of \<open>IDLE\<close> in the demonstration program after its first \<open>update\<close>.\<close>

theorem cache_consistency_witness:
  "reachable walking_machine \<and> states walking_machine IDLE = Some 0 \<and>
   0 < length (heap walking_machine) \<and>
   cache (heap walking_machine ! 0) = Some \<lparr>target = 1, transition_idx = 0\<rparr> \<and>
   transition_idx \<lparr>target = 1, transition_idx = 0\<rparr>
     < length (transitions (heap walking_machine ! 0)) \<and>
   get_target (transitions (heap walking_machine ! 0) ! transition_idx \<lparr>target = 1, transition_idx = 0\<rparr>)
     = target \<lparr>target = 1, transition_idx = 0\<rparr>"
proof -
  have r: "reachable walking_machine" by (rule reachable_machines2)
  have s: "states walking_machine IDLE = Some 0"
    and c: "cache (heap walking_machine ! 0) = Some \<lparr>target = 1, transition_idx = 0\<rparr>"
    by (simp_all add: walking_machine_eval)
  from cache_consistency [OF r, of IDLE 0 "\<lparr>target = 1, transition_idx = 0\<rparr>"] s c
  have "0 < length (heap walking_machine) \<and>
   transition_idx \<lparr>target = 1, transition_idx = 0\<rparr>
     < length (transitions (heap walking_machine ! 0)) \<and>
   get_target (transitions (heap walking_machine ! 0) ! transition_idx \<lparr>target = 1, transition_idx = 0\<rparr>)
     = target \<lparr>target = 1, transition_idx = 0\<rparr>"
    by blast
  with r s c show ?thesis by blast
qed

subsection \<open>Query, then update\<close>

text \<open>
  C10. A guard is a function of the entity id and the arguments, so it returns the same
  value whenever it is called with the same ones. On a reachable machine, if
  \<open>can_transition_to\<close> for the name \<open>n\<close> returns true, then \<open>update\<close> with the same arguments
  on the machine the query leaves returns and makes the state registered under \<open>n\<close>
  current: \<open>get_current_state\<close> returns \<open>n\<close>.
\<close>

theorem can_transition_to_then_update:
  assumes "reachable m" and "can_transition_to m n args = Inr (True, m1, evs)"
  shows "\<exists>m2 evs2. update m1 args = Inr (m2, evs2) \<and>
           current_state m2 = states m n \<and> get_current_state m2 = Inr n"
proof -
  note wf = reachable_wf [OF assms(1)]
  from assms(2) obtain p tgt where p: "current_state m = Some p" and tgt: "states m n = Some tgt"
    by (auto simp: can_transition_to_def split: option.splits)
  note cur = wf_currentD [OF wf p]
  from wf tgt have tl: "tgt < length (heap m)" and tn: "name (heap m ! tgt) = n"
    by (simp_all add: wf_def)
  have wf1: "wf m1" using wf assms(2) by (rule wf_can_transition_to)
  from wf p tgt show ?thesis
  proof (cases rule: can_transition_to_cases [where args = args])
    case (hit c)
    from hit(5) assms(2) have eq: "target c = tgt" "m1 = m" by simp_all
    from update_hit(1) [OF wf p hit(1,2)] eq tgt tl tn show ?thesis
      by (simp add: get_current_state_def deref_def)
  next
    case (match pre k)
    from match(6) assms(2) have m1: "m1 = store m p (update_cache (heap m ! p) k tgt)" by simp
    have p1: "current_state m1 = Some p" using p by (simp add: m1)
    have h1: "heap m1 ! p = update_cache (heap m ! p) k tgt" using cur(1) by (simp add: m1)
    have c1: "cache (heap m1 ! p) = Some \<lparr>target = tgt, transition_idx = k\<rparr>"
      by (simp add: h1 update_cache_def)
    have g1: "check_condition
                (transitions (heap m1 ! p) ! transition_idx \<lparr>target = tgt, transition_idx = k\<rparr>)
                (entity_id (heap m1 ! p)) args"
      using match(4) by (simp add: h1 update_cache_def)
    have n1: "name (heap m1 ! tgt) = n" "length (heap m1) = length (heap m)"
      "states m1 = states m"
      using tn cur(1) by (simp_all add: m1 update_cache_def heap_cache_upd_fields)
    from update_hit(1) [OF wf1 p1 c1 g1] tgt tl n1 show ?thesis
      by (simp add: get_current_state_def deref_def)
  next
    case (none pre)
    with assms(2) show ?thesis by simp
  qed
qed

text \<open>The query for \<open>RUNNING\<close> at speed 6, then \<open>update\<close> at speed 6.\<close>

theorem can_transition_to_then_update_witness:
  "reachable priority_machine \<and>
   can_transition_to priority_machine RUNNING 6 =
     Inr (True, queried_machine, [GuardCall IDLE 1 1 6 True]) \<and>
   (\<exists>m2 evs2. update queried_machine 6 = Inr (m2, evs2) \<and>
      current_state m2 = states priority_machine RUNNING \<and>
      get_current_state m2 = Inr RUNNING)"
proof -
  have r: "reachable priority_machine" by (rule reachable_machines)
  from r priority_query can_transition_to_then_update [OF r priority_query]
  show ?thesis by simp
qed

end
